theory Spec2Isabelle
  imports Complex_Main "HOL-Library.Multiset"
begin

section \<open>Strings\<close>

text \<open>
  A JavaScript string is a sequence of UTF-16 code units. The model takes the code units
  below 256, one \<^typ>\<open>char\<close> each, so \<^const>\<open>length\<close> is \<open>.length\<close>. In this range the
  line terminators of the regular-expression assertion \<open>^\<close> (flag \<open>m\<close>) are LF and CR, and
  the class \<open>\s\<close>, which is also the set that \<open>trim()\<close> removes, is TAB, LF, VT, FF, CR,
  SPACE and NBSP.
\<close>

definition isLineTerminator :: "char \<Rightarrow> bool" where
  "isLineTerminator c = (c = CHR 0x0A \<or> c = CHR 0x0D)"

definition isWhiteSpace :: "char \<Rightarrow> bool" where
  "isWhiteSpace c =
     (c = CHR 0x09 \<or> c = CHR 0x0A \<or> c = CHR 0x0B \<or> c = CHR 0x0C \<or> c = CHR 0x0D
      \<or> c = CHR 0x20 \<or> c = CHR 0xA0)"

text \<open>\<open>s.trim()\<close>, and the two halves it is made of.\<close>

definition trimStart :: "string \<Rightarrow> string" where
  "trimStart s = dropWhile isWhiteSpace s"

definition trimEnd :: "string \<Rightarrow> string" where
  "trimEnd s = rev (dropWhile isWhiteSpace (rev s))"

definition trim :: "string \<Rightarrow> string" where
  "trim s = trimEnd (trimStart s)"

text \<open>\<open>s.toLowerCase()\<close> on code units below 256: A-Z and the accented capitals
  0xC0-0xDE (0xD7, the multiplication sign, apart) move up by 0x20.\<close>

definition lowerChar :: "char \<Rightarrow> char" where
  "lowerChar c =
     (let n = of_char c :: nat in
      if (65 \<le> n \<and> n \<le> 90) \<or> (192 \<le> n \<and> n \<le> 222 \<and> n \<noteq> 215)
      then char_of (n + 32) else c)"

definition toLowerCase :: "string \<Rightarrow> string" where
  "toLowerCase s = map lowerChar s"

text \<open>\<open>s.split('\n')\<close>: never the empty array; \<open>"".split('\n')\<close> is \<open>[""]\<close>.\<close>

fun splitNl :: "string \<Rightarrow> string list" where
  "splitNl [] = [[]]"
| "splitNl (c # cs) =
     (if c = CHR 0x0A then [] # splitNl cs
      else (case splitNl cs of [] \<Rightarrow> [[c]] | l # ls \<Rightarrow> (c # l) # ls))"

text \<open>\<open>lines.join('\n')\<close>.\<close>

fun joinNl :: "string list \<Rightarrow> string" where
  "joinNl [] = []"
| "joinNl [l] = l"
| "joinNl (l # m # ls) = l @ CHR 0x0A # joinNl (m # ls)"

text \<open>
  \<open>rest.split(/^(?=##\s)/m)\<close>. The pattern is empty-width: it matches at a position \<open>q\<close>
  when \<open>q\<close> is the start of the string or follows a line terminator, and the text from \<open>q\<close>
  on starts with \<open>##\<close> and a white-space character. \<open>split\<close> cuts at every such \<open>q\<close> but
  the start of a chunk (an empty match at the start of the string, or where the previous
  chunk has just ended, is skipped), and keeps the text: the chunks concatenate to the
  input.
\<close>

definition headingAhead :: "string \<Rightarrow> bool" where
  "headingAhead s =
     (case s of a # b # c # _ \<Rightarrow> a = CHR ''#'' \<and> b = CHR ''#'' \<and> isWhiteSpace c | _ \<Rightarrow> False)"

fun splitHeadings :: "string \<Rightarrow> string list" where
  "splitHeadings [] = [[]]"
| "splitHeadings (c # cs) =
     (if isLineTerminator c \<and> headingAhead cs then [c] # splitHeadings cs
      else (case splitHeadings cs of [] \<Rightarrow> [[c]] | l # ls \<Rightarrow> (c # l) # ls))"

section \<open>The structural parse (resumeGenerator.ts)\<close>

text \<open>
  \<open>sections\<close> is a plain object used as a dictionary: the own properties are a map from
  keys to strings. An assignment \<open>sections[title] = content\<close> creates or overwrites the own
  property \<open>title\<close>, except for the title \<open>__proto__\<close>: there the assignment reaches the
  inherited accessor of \<open>Object.prototype\<close>, which ignores a string, and nothing is stored.
\<close>

definition objAssign :: "(string \<rightharpoonup> string) \<Rightarrow> string \<Rightarrow> string \<Rightarrow> (string \<rightharpoonup> string)" where
  "objAssign obj k v = (if k = ''__proto__'' then obj else obj(k \<mapsto> v))"

text \<open>\<open>xs[i]\<close> on an array: \<open>undefined\<close> (here \<open>None\<close>) out of range.\<close>

definition jsIndex :: "'a list \<Rightarrow> nat \<Rightarrow> 'a option" where
  "jsIndex xs i = (if i < length xs then Some (xs ! i) else None)"

record resumeStructure =
  header :: "string list"
  sections :: "string \<rightharpoonup> string"

text \<open>The body of \<open>splits.forEach(part => ...)\<close>. \<open>sectionLines[0]\<close> always exists, see
  \<open>splitNl_nonempty\<close>.\<close>

definition sectionTitle :: "string \<Rightarrow> string" where
  "sectionTitle part = toLowerCase (trim (drop 3 (hd (splitNl (trim part)))))"

definition sectionContent :: "string \<Rightarrow> string" where
  "sectionContent part = joinNl (tl (splitNl (trim part)))"

definition addSection :: "(string \<rightharpoonup> string) \<Rightarrow> string \<Rightarrow> (string \<rightharpoonup> string)" where
  "addSection secs part =
     (if trim part = [] then secs
      else objAssign secs (sectionTitle part) (sectionContent part))"

definition parseResumeStructure :: "string \<Rightarrow> resumeStructure" where
  "parseResumeStructure markdown =
     (let lines = splitNl markdown;
          hdr = take 2 lines;
          rest = joinNl (drop 2 lines);
          splits = splitHeadings rest
      in \<lparr>header = hdr, sections = foldl addSection Map.empty splits\<rparr>)"

section \<open>The preview's parse (ResumePreview)\<close>

record headerInfo =
  name :: string
  contact :: string

record previewSection =
  title :: string
  content :: string

record previewStructure =
  headerInfo :: headerInfo
  previewSections :: "previewSection list"

text \<open>\<open>lines[i] || ''\<close>: the empty string for \<open>undefined\<close> (and for the empty string).\<close>

definition orEmpty :: "string option \<Rightarrow> string" where
  "orEmpty v = (case v of None \<Rightarrow> [] | Some s \<Rightarrow> s)"

definition addPreviewSection :: "previewSection list \<Rightarrow> string \<Rightarrow> previewSection list" where
  "addPreviewSection secs part =
     (if trim part = [] then secs
      else secs @ [\<lparr>title = trim (drop 3 (hd (splitNl (trim part)))),
                    content = joinNl (tl (splitNl (trim part)))\<rparr>])"

definition parseMarkdownForPreview :: "string \<Rightarrow> previewStructure" where
  "parseMarkdownForPreview markdown =
     (if markdown = [] then \<lparr>headerInfo = \<lparr>name = [], contact = []\<rparr>, previewSections = []\<rparr>
      else
        (let lines = splitNl markdown;
             info = \<lparr>name = orEmpty (jsIndex lines 0), contact = orEmpty (jsIndex lines 1)\<rparr>;
             rest = joinNl (drop 2 lines);
             splits = splitHeadings rest
         in \<lparr>headerInfo = info, previewSections = foldl addPreviewSection [] splits\<rparr>))"

section \<open>The bullet sanitization pass (generatePdfResume)\<close>

text \<open>
  \<open>resumeText.replace(/^\s*\*\s/gm, '- ')\<close>. With the flags \<open>g\<close> and \<open>m\<close> the text is
  scanned from left to right; at a position that is the start of the text or follows a line
  terminator the pattern is tried: the longest run of white space (\<open>\s\<close> matches line
  terminators too), an asterisk, one white-space character. A match is replaced by \<open>- \<close>
  and the scan goes on behind it; elsewhere the character is copied.

  \<open>bulletMatch s\<close> is the match of \<open>\s*\*\s\<close> at the head of \<open>s\<close>: the last character of
  the match and the text behind it. As no white-space character is an asterisk, the run
  \<open>\s*\<close> is all the white space there is, and backtracking finds nothing else.
\<close>

definition bulletMatch :: "string \<Rightarrow> (char \<times> string) option" where
  "bulletMatch s =
     (case dropWhile isWhiteSpace s of
        a # b # t \<Rightarrow> if a = CHR ''*'' \<and> isWhiteSpace b then Some (b, t) else None
      | _ \<Rightarrow> None)"

lemma bulletMatch_shorter: "bulletMatch s = Some (b, t) \<Longrightarrow> length t < length s"
proof -
  assume m: "bulletMatch s = Some (b, t)"
  then obtain a where d: "dropWhile isWhiteSpace s = a # b # t"
    by (auto simp: bulletMatch_def split: list.splits if_splits)
  have "length (dropWhile isWhiteSpace s) \<le> length s" by (rule length_dropWhile_le)
  then show ?thesis using d by simp
qed

text \<open>\<open>atStart\<close>: the position is the start of the text or follows a line terminator.\<close>

function sanitizeFrom :: "bool \<Rightarrow> string \<Rightarrow> string" where
  "sanitizeFrom atStart [] = []"
| "sanitizeFrom atStart (c # cs) =
     (case (if atStart then bulletMatch (c # cs) else None) of
        Some (b, t) \<Rightarrow> ''- '' @ sanitizeFrom (isLineTerminator b) t
      | None \<Rightarrow> c # sanitizeFrom (isLineTerminator c) cs)"
  by pat_completeness auto
termination
  by (relation "measure (\<lambda>(atStart, s). length s)")
     (auto split: if_splits dest: bulletMatch_shorter)

definition sanitizeBullets :: "string \<Rightarrow> string" where
  "sanitizeBullets resumeText = sanitizeFrom True resumeText"

section \<open>Double-precision arithmetic\<close>

text \<open>
  The numbers of the text extraction are JavaScript numbers, IEEE 754 binary64. A finite
  double is modelled as the real number it denotes; \<open>roundDouble\<close> rounds a real number to
  the nearest double, ties to the even significand: the spacing of the doubles around \<open>x\<close> is
  \<open>2\<close> to the power \<open>ulpExponent x\<close>, 52 binary places below the leading bit of \<open>x\<close> and
  never below \<open>2\<close> to the power \<open>- 1074\<close>, the spacing of the subnormal numbers. An
  arithmetic operation of the code is the exact operation followed by \<open>roundDouble\<close>, and a
  decimal literal is the rounding of its decimal value. Comparisons and \<open>Math.abs\<close> are
  exact. \<open>isDouble\<close> holds of the real numbers that are finite doubles. Results of
  magnitude \<open>2\<close> to the power 1024 and more (\<open>Infinity\<close> in the code), \<open>NaN\<close> and the
  sign of zero are outside the model.
\<close>

definition roundEven :: "real \<Rightarrow> int" where
  "roundEven y =
     (let f = \<lfloor>y\<rfloor>; r = y - of_int f
      in if r < 1 / 2 then f else if 1 / 2 < r then f + 1 else if even f then f else f + 1)"

definition ulpExponent :: "real \<Rightarrow> int" where
  "ulpExponent x = max \<lfloor>log 2 \<bar>x\<bar>\<rfloor> (- 1022) - 52"

definition roundDouble :: "real \<Rightarrow> real" where
  "roundDouble x = of_int (roundEven (x / 2 powi ulpExponent x)) * 2 powi ulpExponent x"

definition isDouble :: "real \<Rightarrow> bool" where
  "isDouble x = (roundDouble x = x \<and> \<bar>x\<bar> < 2 ^ 1024)"

definition addD :: "real \<Rightarrow> real \<Rightarrow> real" where "addD a b = roundDouble (a + b)"
definition subD :: "real \<Rightarrow> real \<Rightarrow> real" where "subD a b = roundDouble (a - b)"
definition mulD :: "real \<Rightarrow> real \<Rightarrow> real" where "mulD a b = roundDouble (a * b)"
definition divD :: "real \<Rightarrow> real \<Rightarrow> real" where "divD a b = roundDouble (a / b)"

text \<open>The least positive double.\<close>

definition minSubnormal :: real where
  "minSubnormal = 2 powi (- 1074)"

section \<open>Text extraction (pdfExtractor.ts)\<close>

text \<open>
  The items of a page as PDF.js gives them: the string, the position \<open>transform[4]\<close>
  (x) and \<open>transform[5]\<close> (the baseline y, larger is higher), the width and the height.
  The four numbers are doubles; the length of the string, an integer, is exact.
\<close>

record textItem =
  str :: string
  transform4 :: real
  transform5 :: real
  width :: real
  height :: real

text \<open>The comparator of \<open>textContent.items.slice().sort(...)\<close>.\<close>

definition compareItems :: "textItem \<Rightarrow> textItem \<Rightarrow> real" where
  "compareItems a b =
     (let y1 = transform5 a; y2 = transform5 b; x1 = transform4 a; x2 = transform4 b
      in if \<bar>subD y1 y2\<bar> > 4 then subD y2 y1 else subD x1 x2)"

text \<open>
  \<open>Array.prototype.sort\<close> is stable, and for a consistent comparator its result is the one
  stable sorted permutation; the model is insertion sort, which computes it (an element goes
  before the first one it does not exceed, so equal elements keep their order). For a
  comparator that is not consistent the language leaves the order to the implementation,
  and the model's order is one of the possible ones.
\<close>

fun insertItem :: "('a \<Rightarrow> 'a \<Rightarrow> real) \<Rightarrow> 'a \<Rightarrow> 'a list \<Rightarrow> 'a list" where
  "insertItem cmp a [] = [a]"
| "insertItem cmp a (b # bs) = (if cmp a b \<le> 0 then a # b # bs else b # insertItem cmp a bs)"

definition jsSort :: "('a \<Rightarrow> 'a \<Rightarrow> real) \<Rightarrow> 'a list \<Rightarrow> 'a list" where
  "jsSort cmp xs = foldr (insertItem cmp) xs []"

text \<open>The loop over \<open>sortedItems\<close> from index 1: \<open>lines.push\<close> is the list that is
  returned, with the last \<open>currentLine\<close> at its end. \<open>charWidth\<close> is the
  \<open>item.str.length > 0 ? item.width / item.str.length : item.width\<close> of the loop.\<close>

definition charWidth :: "textItem \<Rightarrow> real" where
  "charWidth item =
     (if length (str item) > 0 then divD (width item) (real (length (str item)))
      else width item)"

fun assembleLines :: "real \<Rightarrow> real \<Rightarrow> string \<Rightarrow> textItem list \<Rightarrow> string list" where
  "assembleLines lastY lastX_end currentLine [] = [currentLine]"
| "assembleLines lastY lastX_end currentLine (item # items) =
     (let currentY = transform5 item;
          currentX = transform4 item;
          yTolerance = mulD (height item) (roundDouble 0.7)
      in if \<bar>subD currentY lastY\<bar> > yTolerance
         then currentLine # assembleLines currentY (addD currentX (width item)) (str item) items
         else
           (let xGap = subD currentX lastX_end
            in if xGap > mulD (charWidth item) (roundDouble 0.25)
               then assembleLines currentY (addD currentX (width item))
                      (currentLine @ '' '' @ str item) items
               else assembleLines currentY (addD currentX (width item))
                      (currentLine @ str item) items))"

text \<open>The \<open>lines\<close> of one page that has items.\<close>

definition pageLines :: "textItem list \<Rightarrow> string list" where
  "pageLines items =
     (case jsSort compareItems items of
        [] \<Rightarrow> []
      | first # rest \<Rightarrow>
          assembleLines (transform5 first) (addD (transform4 first) (width first))
            (str first) rest)"

text \<open>\<open>line.replace(/\s+/g, ' ').trim()\<close>, the page text and the text of the document.
  \<open>inRun\<close>: the character before was white space.\<close>

fun collapseWhiteSpace :: "bool \<Rightarrow> string \<Rightarrow> string" where
  "collapseWhiteSpace inRun [] = []"
| "collapseWhiteSpace inRun (c # cs) =
     (if isWhiteSpace c
      then (if inRun then collapseWhiteSpace True cs else CHR '' '' # collapseWhiteSpace True cs)
      else c # collapseWhiteSpace False cs)"

definition cleanLine :: "string \<Rightarrow> string" where
  "cleanLine line = trim (collapseWhiteSpace False line)"

definition pageText :: "textItem list \<Rightarrow> string" where
  "pageText items = (if items = [] then [] else joinNl (map cleanLine (pageLines items)))"

fun joinPages :: "string list \<Rightarrow> string" where
  "joinPages [] = []"
| "joinPages [p] = p"
| "joinPages (p # q # ps) = p @ CHR 0x0A # CHR 0x0A # joinPages (q # ps)"

definition extractText :: "textItem list list \<Rightarrow> string" where
  "extractText pages = trim (joinPages (map pageText pages))"

section \<open>PDF generation (resumeGenerator.ts)\<close>

text \<open>
  The two libraries are not code of this repository. \<open>marked.lexer\<close> is a parameter: a
  function from the markdown text to a list of tokens (or an exception); different texts may
  give any tokens. A token is an object of which the code reads \<open>type\<close>, \<open>text\<close>, \<open>tokens\<close>
  and \<open>items\<close>; a field that is \<open>undefined\<close> (or, for \<open>text\<close>, not a string) is \<open>None\<close>.
  The jsPDF document is the list of the calls made on it, with the font and the font size
  that \<open>getTextWidth\<close>, the other parameter, depends on. \<open>doc.text\<close> throws for a text
  that is \<open>undefined\<close> (\<open>Invalid arguments passed to jsPDF.text\<close>); iterating over
  \<open>undefined\<close> throws a \<open>TypeError\<close>. The numbers of the layout are real numbers: the
  statements about the rendering compare runs that do the same arithmetic.
\<close>

datatype jsError = TypeError | InvalidArguments | LibraryError

datatype token =
  Token (ttype: string) (ttext: "string option") (ttokens: "token list option")
    (titems: "token list option")

text \<open>\<open>TextCentered\<close> is \<open>doc.text\<close> with \<open>{ align: 'center' }\<close>; \<open>TextBullet\<close> is
  \<open>doc.text\<close> of the bullet character U+2022, which is not among the code units of the
  model's strings.\<close>

datatype docCall =
    SetFont string string
  | SetFontSize real
  | SetTextColor string
  | SetDrawColor string
  | SetLineWidth real
  | Text string real real
  | TextCentered string real real
  | TextBullet real real
  | Line real real real real
  | AddPage

record pdfDoc =
  calls :: "docCall list"
  fontName :: string
  fontStyle :: string
  fontSize :: real

record libraries =
  lexer :: "string \<Rightarrow> jsError + token list"
  getTextWidth :: "string \<Rightarrow> string \<Rightarrow> real \<Rightarrow> string \<Rightarrow> real"

definition FONT_SIZES_headerTitle :: real where "FONT_SIZES_headerTitle = 21"
definition FONT_SIZES_sectionTitle :: real where "FONT_SIZES_sectionTitle = 15"
definition FONT_SIZES_body :: real where "FONT_SIZES_body = 10.8"
definition FONT_SIZES_contact :: real where "FONT_SIZES_contact = 9.6"

definition COLORS_primary :: string where "COLORS_primary = ''#1F2937''"
definition COLORS_accent :: string where "COLORS_accent = ''#3B82F6''"
definition COLORS_accentLight :: string where "COLORS_accentLight = ''#60a5fa''"
definition COLORS_accentLighter :: string where "COLORS_accentLighter = ''#93c5fd''"
definition COLORS_grayText :: string where "COLORS_grayText = ''#9ca3af''"
definition COLORS_border :: string where "COLORS_border = ''#4b5563''"
definition COLORS_borderDark :: string where "COLORS_borderDark = ''#374151''"

definition PAGE_WIDTH :: real where "PAGE_WIDTH = 210"
definition PAGE_HEIGHT :: real where "PAGE_HEIGHT = 297"
definition PAGE_MARGIN :: real where "PAGE_MARGIN = 20"
definition PAGE_LINE_HEIGHT :: real where "PAGE_LINE_HEIGHT = 5"
definition CONTENT_WIDTH :: real where "CONTENT_WIDTH = PAGE_WIDTH - PAGE_MARGIN * 2"

text \<open>\<open>new jsPDF({ unit: 'mm', format: 'a4' })\<close>: no calls yet, and the font and size
  that jsPDF starts with.\<close>

definition newDoc :: pdfDoc where
  "newDoc = \<lparr>calls = [], fontName = ''helvetica'', fontStyle = ''normal'', fontSize = 16\<rparr>"

definition call :: "docCall \<Rightarrow> pdfDoc \<Rightarrow> pdfDoc" where
  "call c d = d\<lparr>calls := calls d @ [c]\<rparr>"

definition setFont :: "string \<Rightarrow> string \<Rightarrow> pdfDoc \<Rightarrow> pdfDoc" where
  "setFont n s d = (call (SetFont n s) d)\<lparr>fontName := n, fontStyle := s\<rparr>"

definition setFontSize :: "real \<Rightarrow> pdfDoc \<Rightarrow> pdfDoc" where
  "setFontSize z d = (call (SetFontSize z) d)\<lparr>fontSize := z\<rparr>"

definition textWidth :: "libraries \<Rightarrow> pdfDoc \<Rightarrow> string \<Rightarrow> real" where
  "textWidth lib d s = getTextWidth lib (fontName d) (fontStyle d) (fontSize d) s"

definition docText :: "string option \<Rightarrow> real \<Rightarrow> real \<Rightarrow> pdfDoc \<Rightarrow> jsError + pdfDoc" where
  "docText s x y d = (case s of None \<Rightarrow> Inl InvalidArguments | Some t \<Rightarrow> Inr (call (Text t x y) d))"

definition docTextCentered :: "string option \<Rightarrow> real \<Rightarrow> real \<Rightarrow> pdfDoc \<Rightarrow> jsError + pdfDoc" where
  "docTextCentered s x y d =
     (case s of None \<Rightarrow> Inl InvalidArguments | Some t \<Rightarrow> Inr (call (TextCentered t x y) d))"

text \<open>The class \<open>PdfRenderer\<close>. The templates call the same \<open>doc\<close> object that the
  renderer holds, so the document lives in the renderer's state.\<close>

record renderer =
  doc :: pdfDoc
  cursorY :: real
  pageNumber :: nat

definition newRenderer :: "pdfDoc \<Rightarrow> renderer" where
  "newRenderer d = \<lparr>doc = d, cursorY = PAGE_MARGIN, pageNumber = 1\<rparr>"

definition onDoc :: "(pdfDoc \<Rightarrow> pdfDoc) \<Rightarrow> renderer \<Rightarrow> renderer" where
  "onDoc f r = r\<lparr>doc := f (doc r)\<rparr>"

definition moveY :: "real \<Rightarrow> renderer \<Rightarrow> renderer" where
  "moveY dy r = r\<lparr>cursorY := cursorY r + dy\<rparr>"

definition ensurePage :: "renderer \<Rightarrow> renderer" where
  "ensurePage r =
     (if cursorY r > PAGE_HEIGHT - PAGE_MARGIN
      then r\<lparr>doc := call AddPage (doc r), pageNumber := pageNumber r + 1, cursorY := PAGE_MARGIN\<rparr>
      else r)"

text \<open>\<open>_renderInlineTokens\<close>: \<open>flatten\<close> collects the words, which \<open>text.split(' ')\<close>
  and the test \<open>if (word)\<close> give, with their style; the loop draws them.\<close>

datatype wordStyle = Normal | Bold | Italic

definition styleName :: "wordStyle \<Rightarrow> string" where
  "styleName st = (case st of Normal \<Rightarrow> ''normal'' | Bold \<Rightarrow> ''bold'' | Italic \<Rightarrow> ''italic'')"

fun splitSpace :: "string \<Rightarrow> string list" where
  "splitSpace [] = [[]]"
| "splitSpace (c # cs) =
     (if c = CHR '' '' then [] # splitSpace cs
      else (case splitSpace cs of [] \<Rightarrow> [[c]] | l # ls \<Rightarrow> (c # l) # ls))"

definition wordsOf :: "string \<Rightarrow> string list" where
  "wordsOf s = filter (\<lambda>w. w \<noteq> []) (splitSpace s)"

text \<open>Sequencing: an exception ends the computation.\<close>

definition thenE :: "jsError + 'a \<Rightarrow> ('a \<Rightarrow> jsError + 'b) \<Rightarrow> jsError + 'b" where
  "thenE m f = (case m of Inl e \<Rightarrow> Inl e | Inr a \<Rightarrow> f a)"

fun flattenToken :: "wordStyle \<Rightarrow> token \<Rightarrow> jsError + (string \<times> wordStyle) list"
  and flattenTokens :: "wordStyle \<Rightarrow> token list \<Rightarrow> jsError + (string \<times> wordStyle) list" where
  "flattenToken currentStyle (Token ty tx tks its) =
     (if ty = ''strong'' \<or> ty = ''em''
      then (case tks of
              None \<Rightarrow> Inl TypeError
            | Some ts \<Rightarrow> flattenTokens (if ty = ''strong'' then Bold else Italic) ts)
      else if ty = ''text''
      then (case tx of
              Some s \<Rightarrow> Inr (map (\<lambda>w. (w, currentStyle)) (wordsOf s))
            | None \<Rightarrow> Inr [])
      else Inr [])"
| "flattenTokens currentStyle [] = Inr []"
| "flattenTokens currentStyle (t # ts) =
     (case flattenToken currentStyle t of
        Inl e \<Rightarrow> Inl e
      | Inr ws \<Rightarrow>
          (case flattenTokens currentStyle ts of Inl e \<Rightarrow> Inl e | Inr ws' \<Rightarrow> Inr (ws @ ws')))"

fun renderWords ::
  "libraries \<Rightarrow> real \<Rightarrow> real \<Rightarrow> (string \<times> wordStyle) list \<Rightarrow> real \<Rightarrow> renderer \<Rightarrow> renderer" where
  "renderWords lib x maxWidth [] cursorX r = r"
| "renderWords lib x maxWidth (word # ws) cursorX r =
     (let r1 = ensurePage r;
          r2 = onDoc (setFont ''helvetica'' (styleName (snd word))) r1;
          textToRender = fst word @ '' '';
          wordWidth = textWidth lib (doc r2) textToRender;
          wrap = (cursorX + wordWidth > x + maxWidth);
          cx = (if wrap then x else cursorX);
          r3 = (if wrap then moveY PAGE_LINE_HEIGHT r2 else r2);
          r4 = onDoc (call (Text textToRender cx (cursorY r3))) r3
      in renderWords lib x maxWidth ws (cx + wordWidth) r4)"

definition renderInlineTokens ::
  "libraries \<Rightarrow> token list option \<Rightarrow> real \<Rightarrow> real \<Rightarrow> real \<Rightarrow> renderer \<Rightarrow> jsError + renderer" where
  "renderInlineTokens lib tokens x y maxWidth r =
     (case tokens of
        None \<Rightarrow> Inl TypeError
      | Some ts \<Rightarrow>
          thenE (flattenTokens Normal ts)
            (\<lambda>words. Inr (moveY PAGE_LINE_HEIGHT
                            (renderWords lib x maxWidth words x (r\<lparr>cursorY := y\<rparr>)))))"

text \<open>\<open>renderMarkdown\<close>. \<open>renderItemContents\<close> is the \<open>token.tokens.forEach\<close> of a list
  item; \<open>listLevel\<close>, a variable that \<open>renderTokens\<close> increments around the items of a
  list and decrements after them, is an argument.\<close>

fun renderItemContents ::
  "libraries \<Rightarrow> real \<Rightarrow> real \<Rightarrow> token list \<Rightarrow> renderer \<Rightarrow> jsError + renderer" where
  "renderItemContents lib indent effectiveMaxWidth [] r = Inr r"
| "renderItemContents lib indent effectiveMaxWidth (itemContent # rest) r =
     thenE
       (if ttype itemContent = ''paragraph'' \<and> ttokens itemContent \<noteq> None
        then renderInlineTokens lib (ttokens itemContent) (indent + 4) (cursorY r)
               (effectiveMaxWidth - 4) r
        else if ttype itemContent = ''text'' \<and> ttext itemContent \<noteq> None
        then renderInlineTokens lib (Some [Token ''text'' (ttext itemContent) None None])
               (indent + 4) (cursorY r) (effectiveMaxWidth - 4) r
        else Inr r)
       (renderItemContents lib indent effectiveMaxWidth rest)"

definition steps :: "('s \<Rightarrow> 's) list \<Rightarrow> 's \<Rightarrow> 's" where
  "steps fs s = foldl (\<lambda>t f. f t) s fs"

fun renderToken ::
    "libraries \<Rightarrow> real \<Rightarrow> real \<Rightarrow> nat \<Rightarrow> token \<Rightarrow> renderer \<Rightarrow> jsError + renderer"
  and renderTokens ::
    "libraries \<Rightarrow> real \<Rightarrow> real \<Rightarrow> nat \<Rightarrow> token list \<Rightarrow> renderer \<Rightarrow> jsError + renderer" where
  "renderToken lib x maxWidth listLevel (Token ty tx tks its) r =
     (let r1 = ensurePage r;
          indent = x + real listLevel * 5;
          effectiveMaxWidth = maxWidth - real listLevel * 5
      in if ty = ''heading'' then Inr r1
         else if ty = ''paragraph'' then
           (let r2 = steps [onDoc (setFont ''helvetica'' ''normal''),
                            onDoc (setFontSize FONT_SIZES_body),
                            onDoc (call (SetTextColor COLORS_primary))] r1
            in thenE (renderInlineTokens lib tks x (cursorY r2) maxWidth r2)
                 (\<lambda>r3. Inr (moveY 1 r3)))
         else if ty = ''list'' then
           (case its of
              None \<Rightarrow> Inl TypeError
            | Some items \<Rightarrow>
                (case renderTokens lib x maxWidth (Suc listLevel) items r1 of
                   Inl e \<Rightarrow> Inl e
                 | Inr r2 \<Rightarrow> Inr (if listLevel = 0 then moveY 3 r2 else r2)))
         else if ty = ''list_item'' then
           (let r2 = steps [onDoc (setFontSize FONT_SIZES_body),
                            onDoc (call (SetTextColor COLORS_primary))] r1;
                r3 = onDoc (call (TextBullet indent (cursorY r2))) r2
            in case tks of
                 None \<Rightarrow> Inl TypeError
               | Some contents \<Rightarrow>
                   thenE (renderItemContents lib indent effectiveMaxWidth contents r3)
                     (\<lambda>r4. Inr (moveY (- 1) r4)))
         else if ty = ''space'' then Inr r1
         else
           (case tx of
              None \<Rightarrow> Inr r1
            | Some s \<Rightarrow>
                if s = [] then Inr r1
                else
                  (let r2 = steps [onDoc (setFont ''helvetica'' ''normal''),
                                   onDoc (setFontSize FONT_SIZES_body)] r1
                   in renderInlineTokens lib (Some [Token ''text'' (Some s) None None]) x
                        (cursorY r2) maxWidth r2)))"
| "renderTokens lib x maxWidth listLevel [] r = Inr r"
| "renderTokens lib x maxWidth listLevel (t # ts) r =
     (case renderToken lib x maxWidth listLevel t r of
        Inl e \<Rightarrow> Inl e
      | Inr r1 \<Rightarrow> renderTokens lib x maxWidth listLevel ts r1)"

definition renderMarkdown ::
  "libraries \<Rightarrow> string \<Rightarrow> real \<Rightarrow> real \<Rightarrow> real option \<Rightarrow> renderer \<Rightarrow> jsError + renderer" where
  "renderMarkdown lib markdown x maxWidth startY r =
     (let r1 = (case startY of None \<Rightarrow> r | Some y \<Rightarrow> if y = 0 then r else r\<lparr>cursorY := y\<rparr>)
      in thenE (lexer lib markdown) (\<lambda>tokens. renderTokens lib x maxWidth 0 tokens r1))"

text \<open>The templates. \<open>key.charAt(0).toUpperCase() + key.slice(1)\<close>: the keys are the
  ASCII words of the \<open>sectionOrder\<close> arrays, and \<open>toUpperCase\<close> is modelled on the
  letters a-z. \<open>data.sections[key]\<close> is truthy when the key is an own property with a
  string that is not empty (no key of a \<open>sectionOrder\<close> is inherited from
  \<open>Object.prototype\<close>).\<close>

definition upperChar :: "char \<Rightarrow> char" where
  "upperChar c =
     (let n = of_char c :: nat in if 97 \<le> n \<and> n \<le> 122 then char_of (n - 32) else c)"

definition toUpperCase :: "string \<Rightarrow> string" where
  "toUpperCase s = map upperChar s"

definition capitalize :: "string \<Rightarrow> string" where
  "capitalize key = toUpperCase (take 1 key) @ drop 1 key"

definition sectionText :: "resumeStructure \<Rightarrow> string \<Rightarrow> string" where
  "sectionText data key = (case sections data key of None \<Rightarrow> [] | Some body \<Rightarrow> body)"

definition rendererText ::
  "bool \<Rightarrow> string option \<Rightarrow> real \<Rightarrow> real \<Rightarrow> renderer \<Rightarrow> jsError + renderer" where
  "rendererText centered s x y r =
     thenE ((if centered then docTextCentered else docText) s x y (doc r))
       (\<lambda>d. Inr (r\<lparr>doc := d\<rparr>))"

fun forEachE :: "('a \<Rightarrow> 's \<Rightarrow> jsError + 's) \<Rightarrow> 'a list \<Rightarrow> 's \<Rightarrow> jsError + 's" where
  "forEachE f [] s = Inr s"
| "forEachE f (a # as) s = thenE (f a s) (forEachE f as)"

text \<open>The header block, which the four templates share but for the font family, the
  alignment with its x, and the gap under the contact line.\<close>

definition renderHeader ::
  "string \<Rightarrow> bool \<Rightarrow> real \<Rightarrow> real \<Rightarrow> resumeStructure \<Rightarrow> renderer \<Rightarrow> jsError + renderer" where
  "renderHeader family centered x gap data r =
     (let r1 = steps [onDoc (setFont family ''bold''),
                      onDoc (setFontSize FONT_SIZES_headerTitle),
                      onDoc (call (SetTextColor COLORS_primary))] r
      in thenE (rendererText centered (jsIndex (header data) 0) x (cursorY r1) r1) (\<lambda>r2.
         let r3 = steps [moveY 8,
                         onDoc (setFont family ''normal''),
                         onDoc (setFontSize FONT_SIZES_contact),
                         onDoc (call (SetTextColor COLORS_grayText))] r2
         in thenE (rendererText centered (jsIndex (header data) 1) x (cursorY r3) r3) (\<lambda>r4.
            Inr (moveY gap r4))))"

definition classicSectionOrder :: "string list" where
  "classicSectionOrder = [''summary'', ''skills'', ''experience'', ''projects'', ''education'']"

definition classicSection :: "libraries \<Rightarrow> resumeStructure \<Rightarrow> string \<Rightarrow> renderer \<Rightarrow> jsError + renderer" where
  "classicSection lib data key r =
     (if sectionText data key = [] then Inr r
      else
        (let title = capitalize key;
             r1 = steps [onDoc (setFont ''helvetica'' ''bold''),
                         onDoc (setFontSize FONT_SIZES_sectionTitle),
                         onDoc (call (SetTextColor COLORS_accentLight)),
                         (\<lambda>s. onDoc (call (Text title PAGE_MARGIN (cursorY s))) s),
                         moveY 2,
                         onDoc (call (SetDrawColor COLORS_border)),
                         onDoc (call (SetLineWidth 0.2)),
                         (\<lambda>s. onDoc (call (Line PAGE_MARGIN (cursorY s)
                                             (PAGE_WIDTH - PAGE_MARGIN) (cursorY s))) s),
                         moveY 8] r
         in thenE (renderMarkdown lib (sectionText data key) PAGE_MARGIN CONTENT_WIDTH None r1)
              (\<lambda>r2. Inr (moveY 4 r2))))"

definition renderClassicTemplate :: "libraries \<Rightarrow> pdfDoc \<Rightarrow> resumeStructure \<Rightarrow> jsError + renderer" where
  "renderClassicTemplate lib d data =
     thenE (renderHeader ''helvetica'' True (PAGE_WIDTH / 2) 12 data (newRenderer d))
       (forEachE (classicSection lib data) classicSectionOrder)"

definition professionalSectionOrder :: "string list" where
  "professionalSectionOrder = [''summary'', ''skills'', ''experience'', ''projects'', ''education'']"

definition professionalSection ::
  "libraries \<Rightarrow> resumeStructure \<Rightarrow> string \<Rightarrow> renderer \<Rightarrow> jsError + renderer" where
  "professionalSection lib data key r =
     (if sectionText data key = [] then Inr r
      else
        (let title = toUpperCase (capitalize key);
             r1 = steps [onDoc (setFont ''helvetica'' ''bold''),
                         onDoc (setFontSize 12),
                         onDoc (call (SetTextColor COLORS_grayText)),
                         (\<lambda>s. onDoc (call (Text title PAGE_MARGIN (cursorY s))) s),
                         moveY 2,
                         onDoc (call (SetDrawColor COLORS_borderDark)),
                         onDoc (call (SetLineWidth 0.5)),
                         (\<lambda>s. onDoc (call (Line PAGE_MARGIN (cursorY s)
                                             (PAGE_WIDTH - PAGE_MARGIN) (cursorY s))) s),
                         moveY 8] r
         in thenE (renderMarkdown lib (sectionText data key) PAGE_MARGIN CONTENT_WIDTH None r1)
              (\<lambda>r2. Inr (moveY 4 r2))))"

definition renderProfessionalTemplate ::
  "libraries \<Rightarrow> pdfDoc \<Rightarrow> resumeStructure \<Rightarrow> jsError + renderer" where
  "renderProfessionalTemplate lib d data =
     thenE (renderHeader ''helvetica'' False PAGE_MARGIN 10 data (newRenderer d))
       (forEachE (professionalSection lib data) professionalSectionOrder)"

definition technicalSectionOrder :: "string list" where
  "technicalSectionOrder = [''summary'', ''skills'', ''projects'', ''experience'', ''education'']"

definition technicalSection ::
  "libraries \<Rightarrow> resumeStructure \<Rightarrow> string \<Rightarrow> renderer \<Rightarrow> jsError + renderer" where
  "technicalSection lib data key r =
     (if sectionText data key = [] then Inr r
      else
        (let title = capitalize key;
             r1 = steps [onDoc (setFont ''helvetica'' ''bold''),
                         onDoc (setFontSize 13.2),
                         onDoc (call (SetTextColor COLORS_accent)),
                         (\<lambda>s. onDoc (call (Text ''>> '' PAGE_MARGIN (cursorY s))) s),
                         onDoc (call (SetTextColor COLORS_accent)),
                         (\<lambda>s. onDoc (call (Text title
                                  (PAGE_MARGIN + textWidth lib (doc s) ''>> '') (cursorY s))) s),
                         moveY 8] r
         in thenE (renderMarkdown lib (sectionText data key) PAGE_MARGIN CONTENT_WIDTH None r1)
              (\<lambda>r2. Inr (moveY 4 r2))))"

definition renderTechnicalTemplate ::
  "libraries \<Rightarrow> pdfDoc \<Rightarrow> resumeStructure \<Rightarrow> jsError + renderer" where
  "renderTechnicalTemplate lib d data =
     thenE (renderHeader ''courier'' False PAGE_MARGIN 12 data (newRenderer d))
       (forEachE (technicalSection lib data) technicalSectionOrder)"

definition modernSectionOrder :: "string list" where
  "modernSectionOrder = [''summary'', ''experience'', ''projects'', ''skills'', ''education'']"

definition modernSection ::
  "libraries \<Rightarrow> resumeStructure \<Rightarrow> string \<Rightarrow> renderer \<Rightarrow> jsError + renderer" where
  "modernSection lib data key r =
     (if sectionText data key = [] then Inr r
      else
        (let title = capitalize key;
             r1 = steps [moveY 4,
                         onDoc (setFont ''helvetica'' ''bold''),
                         onDoc (setFontSize 13.2),
                         onDoc (call (SetTextColor COLORS_accentLighter)),
                         onDoc (call (SetDrawColor COLORS_accent)),
                         onDoc (call (SetLineWidth 1)),
                         (\<lambda>s. onDoc (call (Line PAGE_MARGIN (cursorY s - 4)
                                             PAGE_MARGIN (cursorY s + 4))) s),
                         (\<lambda>s. onDoc (call (Text title (PAGE_MARGIN + 3) (cursorY s))) s),
                         moveY 8] r
         in thenE (renderMarkdown lib (sectionText data key) PAGE_MARGIN CONTENT_WIDTH None r1)
              (\<lambda>r2. Inr (moveY 4 r2))))"

definition renderModernTemplate ::
  "libraries \<Rightarrow> pdfDoc \<Rightarrow> resumeStructure \<Rightarrow> jsError + renderer" where
  "renderModernTemplate lib d data =
     thenE (renderHeader ''helvetica'' False PAGE_MARGIN 8 data (newRenderer d)) (\<lambda>r.
       forEachE (modernSection lib data) modernSectionOrder
         (steps [onDoc (call (SetDrawColor COLORS_border)),
                 onDoc (call (SetLineWidth 0.2)),
                 (\<lambda>s. onDoc (call (Line PAGE_MARGIN (cursorY s)
                                     (PAGE_WIDTH - PAGE_MARGIN) (cursorY s))) s),
                 moveY 10] r))"

text \<open>\<open>generatePdfResume\<close>. \<open>renderTemplate\<close> is its \<open>switch\<close>; \<open>renderResume\<close> is
  the body of its \<open>try\<close> up to \<open>doc.save\<close>; the effects on the host (the saved file, the
  console, the alert) are a record that the function updates.\<close>

datatype templateId = Classic | Modern | Professional | Technical

definition renderTemplate ::
  "libraries \<Rightarrow> templateId \<Rightarrow> pdfDoc \<Rightarrow> resumeStructure \<Rightarrow> jsError + renderer" where
  "renderTemplate lib templateId d parsedData =
     (case templateId of
        Professional \<Rightarrow> renderProfessionalTemplate lib d parsedData
      | Technical \<Rightarrow> renderTechnicalTemplate lib d parsedData
      | Modern \<Rightarrow> renderModernTemplate lib d parsedData
      | Classic \<Rightarrow> renderClassicTemplate lib d parsedData)"

definition renderResume :: "libraries \<Rightarrow> string \<Rightarrow> templateId \<Rightarrow> jsError + pdfDoc" where
  "renderResume lib resumeText templateId =
     (let sanitizedResumeText = sanitizeBullets resumeText;
          d = newDoc;
          parsedData = parseResumeStructure sanitizedResumeText;
          d1 = setFont ''helvetica'' ''normal'' d
      in thenE (renderTemplate lib templateId d1 parsedData) (\<lambda>r. Inr (doc r)))"

record host =
  savedFiles :: "(string \<times> pdfDoc) list"
  consoleErrors :: "jsError list"
  alerts :: "string list"

definition generatePdfResume ::
  "libraries \<Rightarrow> string \<Rightarrow> templateId \<Rightarrow> string \<Rightarrow> host \<Rightarrow> host" where
  "generatePdfResume lib resumeText templateId filename h =
     (case renderResume lib resumeText templateId of
        Inr d \<Rightarrow> h\<lparr>savedFiles := savedFiles h @ [(filename, d)]\<rparr>
      | Inl error \<Rightarrow>
          h\<lparr>consoleErrors := consoleErrors h @ [error],
            alerts := alerts h
              @ [''Sorry, there was an error generating the PDF. Please try again.'']\<rparr>)"

section \<open>Predicates of the statements\<close>

text \<open>
  A predicate for the statements below, not part of the program: the text has a line that
  starts with \<open>##\<close> and a white-space character, a line being what follows a line
  terminator (and the start of the text when \<open>atStart\<close> holds). These are the positions
  where \<^const>\<open>splitHeadings\<close> cuts.
\<close>

fun hasHeadingLine :: "bool \<Rightarrow> string \<Rightarrow> bool" where
  "hasHeadingLine atStart [] = False"
| "hasHeadingLine atStart (c # cs) =
     ((atStart \<and> headingAhead (c # cs)) \<or> hasHeadingLine (isLineTerminator c) cs)"

text \<open>
  For the statement about one line: the runs of a list joined in the order of the list, with
  a space before a run whose gap to the end of the run before it exceeds a quarter of its
  character width, the gap, the character width and the quarter computed as the loop
  computes them.
\<close>

definition needsSpace :: "real \<Rightarrow> textItem \<Rightarrow> bool" where
  "needsSpace lastX_end item =
     (subD (transform4 item) lastX_end > mulD (charWidth item) (roundDouble 0.25))"

fun joinAfter :: "real \<Rightarrow> textItem list \<Rightarrow> string" where
  "joinAfter lastX_end [] = []"
| "joinAfter lastX_end (b # rest) =
     (if needsSpace lastX_end b then '' '' else []) @ str b
       @ joinAfter (addD (transform4 b) (width b)) rest"

definition joinRuns :: "textItem list \<Rightarrow> string" where
  "joinRuns runs =
     (case runs of [] \<Rightarrow> [] | a # rest \<Rightarrow> str a @ joinAfter (addD (transform4 a) (width a)) rest)"

text \<open>For the statements about rendering: the \<open>sectionOrder\<close> of a template, the page
  count of a document, its text draws with their coordinates, the documents that a run
  has saved, and for the witnesses a sample of the libraries, a second sample with other
  widths for every font but \<open>helvetica\<close>, and a host.\<close>

definition sectionOrderOf :: "templateId \<Rightarrow> string list" where
  "sectionOrderOf templateId =
     (case templateId of
        Classic \<Rightarrow> classicSectionOrder
      | Professional \<Rightarrow> professionalSectionOrder
      | Technical \<Rightarrow> technicalSectionOrder
      | Modern \<Rightarrow> modernSectionOrder)"




definition sampleLibraries :: libraries where
  "sampleLibraries =
     \<lparr>lexer = (\<lambda>s. Inr [Token ''paragraph'' (Some s)
                           (Some [Token ''text'' (Some s) None None]) None]),
      getTextWidth = (\<lambda>family style size s. size * real (length s) / 5)\<rparr>"


definition emptyHost :: host where
  "emptyHost = \<lparr>savedFiles = [], consoleErrors = [], alerts = []\<rparr>"

section \<open>Facts about the string operations\<close>

lemma splitNl_nonempty: "splitNl s \<noteq> []"
  by (induction s) (auto split: list.splits)

lemma length_splitNl: "length (splitNl s) = Suc (length (filter (\<lambda>c. c = CHR 0x0A) s))"
  by (induction s) (auto split: list.splits simp: splitNl_nonempty)

lemma splitNl_no_nl: "CHR 0x0A \<notin> set h \<Longrightarrow> splitNl h = [h]"
  by (induction h) auto

lemma splitNl_append_nl: "CHR 0x0A \<notin> set h \<Longrightarrow> splitNl (h @ CHR 0x0A # r) = h # splitNl r"
  by (induction h) auto

lemma joinNl_Cons: "ls \<noteq> [] \<Longrightarrow> joinNl (l # ls) = l @ CHR 0x0A # joinNl ls"
  by (cases ls) auto

lemma joinNl_splitNl: "joinNl (splitNl s) = s"
proof (induction s)
  case Nil
  show ?case by simp
next
  case (Cons c cs)
  obtain l ls where sp: "splitNl cs = l # ls"
    using splitNl_nonempty [of cs] by (cases "splitNl cs") auto
  show ?case
  proof (cases "c = CHR 0x0A")
    case True
    then show ?thesis using Cons sp by simp
  next
    case False
    have "joinNl ((c # l) # ls) = c # joinNl (l # ls)"
      by (cases ls) auto
    then show ?thesis using False Cons sp by simp
  qed
qed

lemma trimEnd_append_keep:
  "\<exists>c\<in>set ys. \<not> isWhiteSpace c \<Longrightarrow> trimEnd (xs @ ys) = xs @ trimEnd ys"
  unfolding trimEnd_def by (auto simp: dropWhile_append1)

lemma trimEnd_append_drop:
  "\<forall>c\<in>set ys. isWhiteSpace c \<Longrightarrow> trimEnd (xs @ ys) = trimEnd xs"
proof -
  assume ws: "\<forall>c\<in>set ys. isWhiteSpace c"
  have "dropWhile isWhiteSpace (rev ys @ rev xs) = dropWhile isWhiteSpace (rev xs)"
    by (rule dropWhile_append2) (use ws in simp)
  then show ?thesis by (simp add: trimEnd_def)
qed

lemma trimEnd_all_ws: "\<forall>c\<in>set ys. isWhiteSpace c \<Longrightarrow> trimEnd ys = []"
  using trimEnd_append_drop [of ys "[]"] by (simp add: trimEnd_def)

lemma trimStart_nonws: "\<not> isWhiteSpace c \<Longrightarrow> trimStart (c # s) = c # s"
  by (simp add: trimStart_def)

lemma foldl_addSection_other:
  "\<forall>p\<in>set ps. trim p \<noteq> [] \<longrightarrow> sectionTitle p \<noteq> k \<Longrightarrow> foldl addSection m ps k = m k"
  by (induction ps arbitrary: m) (auto simp: addSection_def objAssign_def)

lemma foldl_addSection_last:
  assumes "trim p \<noteq> []" "sectionTitle p = k" "k \<noteq> ''__proto__''"
    and "\<forall>q\<in>set qs. trim q \<noteq> [] \<longrightarrow> sectionTitle q \<noteq> k"
  shows "foldl addSection m (ps @ p # qs) k = Some (sectionContent p)"
  using assms by (simp add: foldl_addSection_other addSection_def objAssign_def)

lemma splitHeadings_nonempty: "splitHeadings s \<noteq> []"
  by (induction s) (auto split: list.splits)

lemma hasHeadingLine_mono: "hasHeadingLine False s \<Longrightarrow> hasHeadingLine b s"
  by (cases s) auto

lemma headingAhead_Nil [simp]: "\<not> headingAhead []"
  by (simp add: headingAhead_def)

lemma splitHeadings_single: "\<not> hasHeadingLine False s \<Longrightarrow> splitHeadings s = [s]"
proof (induction s)
  case Nil
  show ?case by simp
next
  case (Cons c cs)
  from Cons.prems have nh: "\<not> hasHeadingLine (isLineTerminator c) cs" by simp
  then have "\<not> hasHeadingLine False cs" using hasHeadingLine_mono by blast
  then have ih: "splitHeadings cs = [cs]" by (rule Cons.IH)
  have "\<not> (isLineTerminator c \<and> headingAhead cs)"
    using nh by (cases cs) auto
  then show ?case using ih by auto
qed

lemma headingAhead_append_lt:
  "xs \<noteq> [] \<Longrightarrow> isLineTerminator (last xs) \<Longrightarrow> headingAhead (xs @ ys) = headingAhead xs"
proof -
  assume ne: "xs \<noteq> []" and lt: "isLineTerminator (last xs)"
  have nh: "last xs \<noteq> CHR ''#''" using lt by (auto simp: isLineTerminator_def)
  show ?thesis
  proof (cases xs)
    case Nil
    then show ?thesis using ne by simp
  next
    case (Cons a as)
    note c1 = Cons
    show ?thesis
    proof (cases as)
      case Nil
      then show ?thesis using c1 nh by (auto simp: headingAhead_def split: list.splits)
    next
      case (Cons b bs)
      then show ?thesis using c1 nh by (cases bs) (auto simp: headingAhead_def split: list.splits)
    qed
  qed
qed

lemma splitHeadings_append:
  "xs \<noteq> [] \<Longrightarrow> isLineTerminator (last xs) \<Longrightarrow> headingAhead ys \<Longrightarrow>
   splitHeadings (xs @ ys) = splitHeadings xs @ splitHeadings ys"
proof (induction xs)
  case Nil
  then show ?case by simp
next
  case (Cons c cs)
  show ?case
  proof (cases cs)
    case Nil
    then show ?thesis using Cons.prems by simp
  next
    case (Cons d ds)
    then have ne: "cs \<noteq> []" and lt: "isLineTerminator (last cs)"
      using Cons.prems by auto
    have ih: "splitHeadings (cs @ ys) = splitHeadings cs @ splitHeadings ys"
      using Cons.IH ne lt Cons.prems(3) by blast
    have ha: "headingAhead (cs @ ys) = headingAhead cs"
      using headingAhead_append_lt ne lt by blast
    obtain l ls where sp: "splitHeadings cs = l # ls"
      using splitHeadings_nonempty [of cs] by (cases "splitHeadings cs") auto
    show ?thesis using ih ha sp by simp
  qed
qed

lemma hasHeadingLine_skip:
  "\<forall>c\<in>set xs. \<not> isLineTerminator c \<Longrightarrow>
   hasHeadingLine False (xs @ ys) = hasHeadingLine False ys"
  by (induction xs) auto

lemma trimEnd_Cons:
  "trimEnd (c # t) = (if trimEnd t = [] \<and> isWhiteSpace c then [] else c # trimEnd t)"
proof (cases "\<forall>x\<in>set t. isWhiteSpace x")
  case True
  then have e: "trimEnd t = []" by (rule trimEnd_all_ws)
  show ?thesis
  proof (cases "isWhiteSpace c")
    case True
    with \<open>\<forall>x\<in>set t. isWhiteSpace x\<close> have "\<forall>x\<in>set (c # t). isWhiteSpace x" by simp
    then have "trimEnd (c # t) = []" by (rule trimEnd_all_ws)
    then show ?thesis using e True by simp
  next
    case False
    have "trimEnd ([c] @ t) = trimEnd [c]" using True by (rule trimEnd_append_drop)
    then show ?thesis using e False by (simp add: trimEnd_def)
  qed
next
  case False
  then have ex: "\<exists>x\<in>set t. \<not> isWhiteSpace x" by blast
  then have "trimEnd ([c] @ t) = [c] @ trimEnd t" by (rule trimEnd_append_keep)
  moreover have "trimEnd t \<noteq> []"
  proof
    assume "trimEnd t = []"
    then have "dropWhile isWhiteSpace (rev t) = []" by (simp add: trimEnd_def)
    then have "\<forall>x\<in>set (rev t). isWhiteSpace x" by (simp add: dropWhile_eq_Nil_conv)
    then show False using ex by simp
  qed
  ultimately show ?thesis by simp
qed

lemma trimStart_trimEnd: "trimStart (trimEnd t) = trimEnd (trimStart t)"
proof (induction t)
  case Nil
  show ?case by (simp add: trimStart_def trimEnd_def)
next
  case (Cons c t)
  show ?case
  proof (cases "isWhiteSpace c")
    case True
    then have "trimStart (c # t) = trimStart t" by (simp add: trimStart_def)
    moreover have "trimStart (trimEnd (c # t)) = trimStart (trimEnd t)"
      using True by (simp add: trimEnd_Cons) (simp add: trimStart_def)
    ultimately show ?thesis using Cons by simp
  next
    case False
    then show ?thesis by (simp add: trimEnd_Cons trimStart_def)
  qed
qed

lemma trimEnd_idem: "trimEnd (trimEnd t) = trimEnd t"
  by (simp add: trimEnd_def dropWhile_idem)

lemma trim_trimEnd: "trim (trimEnd t) = trim t"
  by (simp add: trim_def trimStart_trimEnd trimEnd_idem)

lemma set_trimEnd: "set (trimEnd t) \<subseteq> set t"
  unfolding trimEnd_def using set_dropWhileD [of _ isWhiteSpace "rev t"] by auto

lemma trim_nonws_head: "\<not> isWhiteSpace c \<Longrightarrow> trim (c # s) = trimEnd (c # s)"
  by (simp add: trim_def trimStart_def)

lemma hash_not_ws [simp]: "\<not> isWhiteSpace CHR ''#''"
  by (simp add: isWhiteSpace_def)

lemma trim_heading_chunk:
  "trim (''## '' @ t @ CHR 0x0A # B) = trimEnd (''## '' @ t @ CHR 0x0A # B)"
  by (simp add: trim_nonws_head)

lemma heading_chunk_nonblank: "trim (''## '' @ t @ CHR 0x0A # B) \<noteq> []"
  by (simp add: trim_nonws_head trimEnd_Cons)

lemma heading_chunk_lines_blank:
  assumes t: "CHR 0x0A \<notin> set t" and ws: "\<forall>c\<in>set B. isWhiteSpace c"
  shows "splitNl (trim (''## '' @ t @ CHR 0x0A # B)) = [''##'' @ trimEnd (CHR '' '' # t)]"
proof -
  have "trimEnd ((''## '' @ t @ [CHR 0x0A]) @ B) = trimEnd (''## '' @ t @ [CHR 0x0A])"
    using ws by (rule trimEnd_append_drop)
  also have "\<dots> = trimEnd ((''## '' @ t) @ [CHR 0x0A])" by simp
  also have "\<dots> = trimEnd (''## '' @ t)"
    by (rule trimEnd_append_drop) (simp add: isWhiteSpace_def)
  also have "\<dots> = ''##'' @ trimEnd (CHR '' '' # t)"
    by (simp add: trimEnd_Cons)
  finally have "trimEnd (''## '' @ t @ CHR 0x0A # B) = ''##'' @ trimEnd (CHR '' '' # t)"
    by simp
  then have tr: "trim (''## '' @ t @ CHR 0x0A # B) = ''##'' @ trimEnd (CHR '' '' # t)"
    using trim_heading_chunk [of t B] by simp
  have "CHR 0x0A \<notin> set (trimEnd (CHR '' '' # t))"
    using set_trimEnd [of "CHR '' '' # t"] t by auto
  then have "CHR 0x0A \<notin> set (''##'' @ trimEnd (CHR '' '' # t))" by simp
  then have "splitNl (''##'' @ trimEnd (CHR '' '' # t)) = [''##'' @ trimEnd (CHR '' '' # t)]"
    by (rule splitNl_no_nl)
  then show ?thesis using tr by simp
qed

lemma heading_chunk_lines_body:
  assumes t: "CHR 0x0A \<notin> set t" and ex: "\<exists>c\<in>set B. \<not> isWhiteSpace c"
  shows "splitNl (trim (''## '' @ t @ CHR 0x0A # B)) = (''## '' @ t) # splitNl (trimEnd B)"
proof -
  have "trimEnd ((''## '' @ t @ [CHR 0x0A]) @ B) = (''## '' @ t @ [CHR 0x0A]) @ trimEnd B"
    using ex by (rule trimEnd_append_keep)
  then have "trimEnd (''## '' @ t @ CHR 0x0A # B) = (''## '' @ t) @ CHR 0x0A # trimEnd B"
    by simp
  then have tr: "trim (''## '' @ t @ CHR 0x0A # B) = (''## '' @ t) @ CHR 0x0A # trimEnd B"
    using trim_heading_chunk [of t B] by simp
  have "CHR 0x0A \<notin> set (''## '' @ t)" using t by simp
  then have "splitNl ((''## '' @ t) @ CHR 0x0A # trimEnd B) = (''## '' @ t) # splitNl (trimEnd B)"
    by (rule splitNl_append_nl)
  then show ?thesis using tr by simp
qed

lemma trim_all_ws: "\<forall>c\<in>set t. isWhiteSpace c \<Longrightarrow> trim t = []"
proof -
  assume "\<forall>c\<in>set t. isWhiteSpace c"
  then have d: "dropWhile isWhiteSpace t = []" by (simp add: dropWhile_eq_Nil_conv)
  show ?thesis unfolding trim_def trimStart_def trimEnd_def d by simp
qed

lemma heading_chunk_title:
  assumes t: "CHR 0x0A \<notin> set t"
  shows "sectionTitle (''## '' @ t @ CHR 0x0A # B) = toLowerCase (trim t)"
proof (cases "\<forall>c\<in>set B. isWhiteSpace c")
  case True
  note bws = True
  show ?thesis
  proof (cases "\<forall>c\<in>set t. isWhiteSpace c")
    case True
    then have "\<forall>c\<in>set (CHR '' '' # t). isWhiteSpace c" by (simp add: isWhiteSpace_def)
    then have "trimEnd (CHR '' '' # t) = []" by (rule trimEnd_all_ws)
    then show ?thesis
      using True heading_chunk_lines_blank [OF t bws]
      by (simp add: sectionTitle_def trim_all_ws)
  next
    case False
    then have "trimEnd t \<noteq> []"
      by (auto simp: trimEnd_def dropWhile_eq_Nil_conv)
    then have "trimEnd (CHR '' '' # t) = CHR '' '' # trimEnd t" by (simp add: trimEnd_Cons)
    then show ?thesis
      using heading_chunk_lines_blank [OF t bws]
      by (simp add: sectionTitle_def trim_trimEnd)
  qed
next
  case False
  then have "\<exists>c\<in>set B. \<not> isWhiteSpace c" by blast
  then show ?thesis
    using heading_chunk_lines_body [OF t] by (simp add: sectionTitle_def)
qed

lemma heading_chunk_content:
  assumes t: "CHR 0x0A \<notin> set t"
  shows "sectionContent (''## '' @ t @ CHR 0x0A # B) = trimEnd B"
proof (cases "\<forall>c\<in>set B. isWhiteSpace c")
  case True
  then show ?thesis
    using heading_chunk_lines_blank [OF t True] by (simp add: sectionContent_def trimEnd_all_ws)
next
  case False
  then have "\<exists>c\<in>set B. \<not> isWhiteSpace c" by blast
  then show ?thesis
    using heading_chunk_lines_body [OF t] by (simp add: sectionContent_def joinNl_splitNl)
qed

lemma rest_after_header:
  assumes "CHR 0x0A \<notin> set h0" "CHR 0x0A \<notin> set h1"
  shows "joinNl (drop 2 (splitNl (h0 @ CHR 0x0A # h1 @ CHR 0x0A # r))) = r"
  using assms by (simp add: splitNl_append_nl joinNl_splitNl)

lemma heading_chunk_whole:
  assumes t: "\<forall>c\<in>set t. \<not> isLineTerminator c" and B: "\<not> hasHeadingLine True B"
  shows "splitHeadings (''## '' @ t @ CHR 0x0A # B) = [''## '' @ t @ CHR 0x0A # B]"
proof -
  have "\<forall>c\<in>set (''## '' @ t). \<not> isLineTerminator c"
    using t by (simp add: isLineTerminator_def)
  then have "hasHeadingLine False ((''## '' @ t) @ CHR 0x0A # B) = hasHeadingLine False (CHR 0x0A # B)"
    by (rule hasHeadingLine_skip)
  also have "\<dots> = hasHeadingLine True B" by (simp add: isLineTerminator_def)
  finally have "\<not> hasHeadingLine False (''## '' @ t @ CHR 0x0A # B)" using B by simp
  then show ?thesis by (rule splitHeadings_single)
qed

lemma chunks_around_heading:
  assumes pre: "pre = [] \<or> isLineTerminator (last pre)"
    and t: "\<forall>c\<in>set t. \<not> isLineTerminator c" and B: "\<not> hasHeadingLine True B"
    and post: "post = [] \<or> (headingAhead post \<and> isLineTerminator (last (CHR 0x0A # B)))"
  shows "\<exists>ps. splitHeadings (pre @ (''## '' @ t @ CHR 0x0A # B) @ post) =
           ps @ (''## '' @ t @ CHR 0x0A # B) # (if post = [] then [] else splitHeadings post)"
proof -
  let ?S = "''## '' @ t @ CHR 0x0A # B"
  have S: "splitHeadings ?S = [?S]" using t B by (rule heading_chunk_whole)
  have lastS: "last ?S = last (CHR 0x0A # B)" by simp
  have SP: "splitHeadings (?S @ post) = ?S # (if post = [] then [] else splitHeadings post)"
  proof (cases "post = []")
    case True
    then show ?thesis using S by simp
  next
    case False
    then have "headingAhead post" "isLineTerminator (last ?S)" using post lastS by auto
    then have "splitHeadings (?S @ post) = splitHeadings ?S @ splitHeadings post"
      using splitHeadings_append [of ?S post] by simp
    then show ?thesis using S False by simp
  qed
  have hS: "headingAhead (?S @ post)" by (simp add: headingAhead_def isWhiteSpace_def)
  show ?thesis
  proof (cases "pre = []")
    case True
    then show ?thesis using SP by (intro exI [of _ "[]"]) simp
  next
    case False
    then have "isLineTerminator (last pre)" using pre by simp
    then have "splitHeadings (pre @ ?S @ post) = splitHeadings pre @ splitHeadings (?S @ post)"
      using splitHeadings_append [of pre "?S @ post"] False hS by blast
    then show ?thesis using SP by (intro exI [of _ "splitHeadings pre"]) simp
  qed
qed

text \<open>
  Claim C1, as amended. Take a markdown document with two header lines, then any text
  \<open>pre\<close> that ends a line, the heading line \<open>## t\<close>, a body \<open>B\<close> with no line that starts
  with \<open>##\<close> and a white-space character, and then either nothing or the following
  sections \<open>post\<close>, none of them with the same key. The parse stores, under the trimmed and
  lower-cased title, the body with its trailing white space removed. Its leading white
  space (a blank line after the heading, an indentation) is kept: \<open>trim\<close> is applied to the
  whole chunk, whose first character is \<open>#\<close>. The key \<open>__proto__\<close> is apart, see
  \<^const>\<open>objAssign\<close>.
\<close>

theorem section_body_trailing_trim:
  assumes h0: "CHR 0x0A \<notin> set h0" and h1: "CHR 0x0A \<notin> set h1"
    and pre: "pre = [] \<or> isLineTerminator (last pre)"
    and t: "\<forall>c\<in>set t. \<not> isLineTerminator c"
    and B: "\<not> hasHeadingLine True B"
    and post: "post = [] \<or> (headingAhead post \<and> isLineTerminator (last (CHR 0x0A # B)))"
    and later: "\<forall>p\<in>set (splitHeadings post). trim p \<noteq> [] \<longrightarrow> sectionTitle p \<noteq> toLowerCase (trim t)"
    and key: "toLowerCase (trim t) \<noteq> ''__proto__''"
  shows "sections (parseResumeStructure
            (h0 @ CHR 0x0A # h1 @ CHR 0x0A # pre @ (''## '' @ t @ CHR 0x0A # B) @ post))
           (toLowerCase (trim t)) = Some (trimEnd B)"
proof -
  let ?S = "''## '' @ t @ CHR 0x0A # B"
  have nl: "CHR 0x0A \<notin> set t" using t by (auto simp: isLineTerminator_def)
  obtain ps where ch: "splitHeadings (pre @ ?S @ post) = ps @ ?S # (if post = [] then [] else splitHeadings post)"
    using chunks_around_heading [OF pre t B post] by blast
  have rest: "joinNl (drop 2 (splitNl (h0 @ CHR 0x0A # h1 @ CHR 0x0A # pre @ ?S @ post))) = pre @ ?S @ post"
    using h0 h1 by (rule rest_after_header)
  have lat: "\<forall>q\<in>set (if post = [] then [] else splitHeadings post). trim q \<noteq> [] \<longrightarrow> sectionTitle q \<noteq> toLowerCase (trim t)"
    using later by simp
  have "foldl addSection Map.empty (ps @ ?S # (if post = [] then [] else splitHeadings post)) (toLowerCase (trim t))
        = Some (sectionContent ?S)"
    using heading_chunk_nonblank heading_chunk_title [OF nl] key lat
    by (rule foldl_addSection_last)
  then show ?thesis
    using rest ch by (simp add: parseResumeStructure_def heading_chunk_content [OF nl] del: append_Cons append.simps)
qed

section \<open>The structural parse: header lines and sections\<close>

text \<open>
  Claim C1, as stated, fails. With a blank line between the heading \<open>## Foo\<close> and the text
  \<open>Body\<close>, the body is a line feed and \<open>Body\<close>; it has no heading line; the parse stores
  it as it is, while trimming it on both sides gives \<open>Body\<close>.
\<close>

theorem section_body_surrounding_trim_counterexample:
  "sections (parseResumeStructure
      (''Jane'' @ CHR 0x0A # ''jane@example.com'' @ CHR 0x0A # ''## Foo'' @ CHR 0x0A # (CHR 0x0A # ''Body'')))
     ''foo'' = Some (CHR 0x0A # ''Body'')
   \<and> trim (CHR 0x0A # ''Body'') = ''Body''
   \<and> \<not> hasHeadingLine True (CHR 0x0A # ''Body'')"
  by code_simp

text \<open>
  Witness for C1 as amended: a document with an introductory line, the section \<open>## Foo\<close>
  with a blank line, an indented line and a final line feed as body, and a section
  \<open>## Bar\<close> after it.
\<close>

theorem section_body_trailing_trim_witness:
  "sections (parseResumeStructure
      (''Jane'' @ CHR 0x0A # ''mail'' @ CHR 0x0A # (''intro'' @ [CHR 0x0A])
         @ (''## '' @ ''Foo'' @ CHR 0x0A # (CHR 0x0A # ''  Body'' @ [CHR 0x0A]))
         @ (''## Bar'' @ CHR 0x0A # ''x'')))
     ''foo'' = Some (CHR 0x0A # ''  Body'')"
proof -
  have h0: "CHR 0x0A \<notin> set ''Jane''" by simp
  have h1: "CHR 0x0A \<notin> set ''mail''" by simp
  have pre: "''intro'' @ [CHR 0x0A] = [] \<or> isLineTerminator (last (''intro'' @ [CHR 0x0A]))"
    by (simp add: isLineTerminator_def)
  have t: "\<forall>c\<in>set ''Foo''. \<not> isLineTerminator c" by (simp add: isLineTerminator_def)
  have B: "\<not> hasHeadingLine True (CHR 0x0A # ''  Body'' @ [CHR 0x0A])" by code_simp
  have post: "''## Bar'' @ CHR 0x0A # ''x'' = [] \<or>
      (headingAhead (''## Bar'' @ CHR 0x0A # ''x'')
       \<and> isLineTerminator (last (CHR 0x0A # (CHR 0x0A # ''  Body'' @ [CHR 0x0A]))))"
    by code_simp
  have later: "\<forall>p\<in>set (splitHeadings (''## Bar'' @ CHR 0x0A # ''x'')).
      trim p \<noteq> [] \<longrightarrow> sectionTitle p \<noteq> toLowerCase (trim ''Foo'')"
    by code_simp
  have key: "toLowerCase (trim ''Foo'') \<noteq> ''__proto__''" by code_simp
  have k: "toLowerCase (trim ''Foo'') = ''foo''" by code_simp
  have v: "trimEnd (CHR 0x0A # ''  Body'' @ [CHR 0x0A]) = CHR 0x0A # ''  Body''" by code_simp
  show ?thesis
    using section_body_trailing_trim [OF h0 h1 pre t B post later key] unfolding k v .
qed

text \<open>
  Claim C2 on the input \<open>Jane Doe\<close>, a text of one line. \<open>parseResumeStructure\<close> returns a
  header array of length one, so \<open>header[1]\<close>, which every template passes to \<open>doc.text\<close>,
  is \<open>undefined\<close> and not the empty string. \<open>parseMarkdownForPreview\<close> reads the same line
  as \<open>lines[1] || ''\<close> and yields the empty string.
\<close>

theorem parse_header_single_line:
  "header (parseResumeStructure ''Jane Doe'') = [''Jane Doe'']
   \<and> jsIndex (header (parseResumeStructure ''Jane Doe'')) 1 = None
   \<and> contact (headerInfo (parseMarkdownForPreview ''Jane Doe'')) = ''''"
  by code_simp

text \<open>
  In general: line 0 is always there; line 1 is there exactly when the text has a line
  feed. The preview's parse fills the gap with the empty string.
\<close>

lemma parse_header_lines:
  "jsIndex (header (parseResumeStructure markdown)) 0 = Some (hd (splitNl markdown))"
  "jsIndex (header (parseResumeStructure markdown)) 1 =
     (if CHR 0x0A \<in> set markdown then Some (splitNl markdown ! 1) else None)"
proof -
  obtain l ls where sp: "splitNl markdown = l # ls"
    using splitNl_nonempty [of markdown] by (cases "splitNl markdown") auto
  show "jsIndex (header (parseResumeStructure markdown)) 0 = Some (hd (splitNl markdown))"
    using sp by (simp add: parseResumeStructure_def jsIndex_def Let_def)
  have len: "length (splitNl markdown) = Suc (length (filter (\<lambda>c. c = CHR 0x0A) markdown))"
    by (rule length_splitNl)
  have "(CHR 0x0A \<in> set markdown) = (filter (\<lambda>c. c = CHR 0x0A) markdown \<noteq> [])"
    by (auto simp: filter_empty_conv)
  then have "(CHR 0x0A \<in> set markdown) = (1 < length (splitNl markdown))"
    using len by auto
  then show "jsIndex (header (parseResumeStructure markdown)) 1 =
     (if CHR 0x0A \<in> set markdown then Some (splitNl markdown ! 1) else None)"
    by (auto simp: parseResumeStructure_def jsIndex_def Let_def)
qed

lemma preview_header_lines:
  "name (headerInfo (parseMarkdownForPreview markdown)) = hd (splitNl markdown)"
  "contact (headerInfo (parseMarkdownForPreview markdown)) =
     (if CHR 0x0A \<in> set markdown then splitNl markdown ! 1 else [])"
proof -
  obtain l ls where sp: "splitNl markdown = l # ls"
    using splitNl_nonempty [of markdown] by (cases "splitNl markdown") auto
  show "name (headerInfo (parseMarkdownForPreview markdown)) = hd (splitNl markdown)"
    using sp by (cases markdown) (auto simp: parseMarkdownForPreview_def jsIndex_def orEmpty_def Let_def)
  have len: "length (splitNl markdown) = Suc (length (filter (\<lambda>c. c = CHR 0x0A) markdown))"
    by (rule length_splitNl)
  have "(CHR 0x0A \<in> set markdown) = (filter (\<lambda>c. c = CHR 0x0A) markdown \<noteq> [])"
    by (auto simp: filter_empty_conv)
  then have "(CHR 0x0A \<in> set markdown) = (1 < length (splitNl markdown))"
    using len by auto
  then show "contact (headerInfo (parseMarkdownForPreview markdown)) =
     (if CHR 0x0A \<in> set markdown then splitNl markdown ! 1 else [])"
    by (cases markdown) (auto simp: parseMarkdownForPreview_def jsIndex_def orEmpty_def Let_def)
qed

text \<open>
  Duplicate headings. Whenever the chunks of a markdown document hold two sections with the
  same key \<open>k\<close>, \<open>first\<close> and later \<open>lst\<close>, and no section after \<open>lst\<close> has that key, the
  parse yields for \<open>k\<close> the body of \<open>lst\<close>: the last occurrence wins, for every key that
  a plain object stores, which is every key but \<open>__proto__\<close>.
\<close>

lemma duplicate_section_last_wins:
  assumes chunks: "splitHeadings (joinNl (drop 2 (splitNl markdown)))
                     = before @ first # between @ lst # after"
    and first: "trim first \<noteq> []" "sectionTitle first = k"
    and lst: "trim lst \<noteq> []" "sectionTitle lst = k"
    and after: "\<forall>p\<in>set after. trim p \<noteq> [] \<longrightarrow> sectionTitle p \<noteq> k"
    and key: "k \<noteq> ''__proto__''"
  shows "sections (parseResumeStructure markdown) k = Some (sectionContent lst)"
proof -
  have "foldl addSection Map.empty ((before @ first # between) @ lst # after) k
          = Some (sectionContent lst)"
    using lst key after by (rule foldl_addSection_last)
  then show ?thesis using chunks by (simp add: parseResumeStructure_def)
qed

text \<open>
  For example two \<open>## Skills\<close> blocks around a \<open>## Summary\<close> block: the second list is the
  one that is kept.
\<close>

lemma duplicate_section_last_wins_example:
  "sections (parseResumeStructure
      (''Jane'' @ CHR 0x0A # ''mail'' @ CHR 0x0A # ''## Skills'' @ CHR 0x0A # ''- Go'' @ CHR 0x0A #
       ''## Summary'' @ CHR 0x0A # ''Engineer.'' @ CHR 0x0A # ''## Skills'' @ CHR 0x0A # ''- Python''))
     ''skills'' = Some ''- Python''"
proof -
  let ?md = "''Jane'' @ CHR 0x0A # ''mail'' @ CHR 0x0A # ''## Skills'' @ CHR 0x0A # ''- Go'' @ CHR 0x0A #
       ''## Summary'' @ CHR 0x0A # ''Engineer.'' @ CHR 0x0A # ''## Skills'' @ CHR 0x0A # ''- Python''"
  let ?first = "''## Skills'' @ CHR 0x0A # ''- Go'' @ [CHR 0x0A]"
  let ?mid = "''## Summary'' @ CHR 0x0A # ''Engineer.'' @ [CHR 0x0A]"
  let ?lst = "''## Skills'' @ CHR 0x0A # ''- Python''"
  have chunks: "splitHeadings (joinNl (drop 2 (splitNl ?md))) = [] @ ?first # [?mid] @ ?lst # []"
    by code_simp
  have f: "trim ?first \<noteq> []" "sectionTitle ?first = ''skills''" by code_simp+
  have l: "trim ?lst \<noteq> []" "sectionTitle ?lst = ''skills''" by code_simp+
  have a: "\<forall>p\<in>set []. trim p \<noteq> [] \<longrightarrow> sectionTitle p \<noteq> ''skills''" by simp
  have k: "''skills'' \<noteq> ''__proto__''" by simp
  have v: "sectionContent ?lst = ''- Python''" by code_simp
  show ?thesis
    using duplicate_section_last_wins [OF chunks f l a k] unfolding v .
qed

text \<open>
  Claim C6 on a document with two sections headed \<open>## __proto__\<close>. Both chunks have the key
  \<open>__proto__\<close>; the assignment \<open>sections[title] = content\<close> stores nothing for it, so the
  parse has no body under that key, neither the last one nor the first.
\<close>

theorem duplicate_proto_section_not_stored:
  "map sectionTitle (splitHeadings (joinNl (drop 2 (splitNl
      (''Jane'' @ CHR 0x0A # ''mail'' @ CHR 0x0A # ''## __proto__'' @ CHR 0x0A # ''first'' @ CHR 0x0A #
       ''## __proto__'' @ CHR 0x0A # ''second'')))))
     = [''__proto__'', ''__proto__'']
   \<and> sections (parseResumeStructure
      (''Jane'' @ CHR 0x0A # ''mail'' @ CHR 0x0A # ''## __proto__'' @ CHR 0x0A # ''first'' @ CHR 0x0A #
       ''## __proto__'' @ CHR 0x0A # ''second''))
     ''__proto__'' = None"
  by code_simp

section \<open>The bullet sanitization pass: idempotence and the replaced prefix\<close>

lemma bulletMatch_ws: "isWhiteSpace c \<Longrightarrow> bulletMatch (c # s) = bulletMatch s"
  by (simp add: bulletMatch_def)

lemma bulletMatch_nonws:
  "\<not> isWhiteSpace c \<Longrightarrow>
   bulletMatch (c # s) =
     (case s of b # t \<Rightarrow> if c = CHR ''*'' \<and> isWhiteSpace b then Some (b, t) else None
      | [] \<Rightarrow> None)"
  by (simp add: bulletMatch_def split: list.splits)

lemma sanitizeFrom_False_Cons:
  "sanitizeFrom False (c # cs) = c # sanitizeFrom (isLineTerminator c) cs"
  by simp

lemma sanitizeFrom_no_match:
  "bulletMatch (c # cs) = None \<Longrightarrow>
   sanitizeFrom b (c # cs) = c # sanitizeFrom (isLineTerminator c) cs"
  by simp

lemma star_not_lt: "\<not> isLineTerminator CHR ''*''"
  by (simp add: isLineTerminator_def)

lemma lt_is_ws: "isLineTerminator c \<Longrightarrow> isWhiteSpace c"
  by (auto simp: isLineTerminator_def isWhiteSpace_def)

lemma no_match_preserved:
  "bulletMatch s = None \<Longrightarrow> bulletMatch (sanitizeFrom b s) = None"
proof (induction s arbitrary: b)
  case Nil
  then show ?case by simp
next
  case (Cons c cs)
  have out: "sanitizeFrom b (c # cs) = c # sanitizeFrom (isLineTerminator c) cs"
    using Cons.prems by (rule sanitizeFrom_no_match)
  show ?case
  proof (cases "isWhiteSpace c")
    case True
    then have "bulletMatch cs = None" using Cons.prems by (simp add: bulletMatch_ws)
    then have "bulletMatch (sanitizeFrom (isLineTerminator c) cs) = None" by (rule Cons.IH)
    then show ?thesis using out True by (simp add: bulletMatch_ws)
  next
    case False
    then have lt: "\<not> isLineTerminator c" using lt_is_ws by blast
    show ?thesis
    proof (cases cs)
      case Nil
      then show ?thesis using out False by (simp add: bulletMatch_nonws)
    next
      case (Cons d ds)
      have "\<not> (c = CHR ''*'' \<and> isWhiteSpace d)"
        using \<open>bulletMatch (c # cs) = None\<close> False Cons by (auto simp: bulletMatch_nonws)
      moreover have "sanitizeFrom b (c # cs) = c # d # sanitizeFrom (isLineTerminator d) ds"
        using out lt Cons by simp
      ultimately show ?thesis using False by (simp add: bulletMatch_nonws)
    qed
  qed
qed

lemma sanitizeFrom_idem:
  "(b2 \<longrightarrow> b1) \<Longrightarrow> sanitizeFrom b2 (sanitizeFrom b1 s) = sanitizeFrom b1 s"
proof (induction b1 s arbitrary: b2 rule: sanitizeFrom.induct)
  case (1 atStart)
  show ?case by simp
next
  case (2 atStart c cs)
  show ?case
  proof (cases "if atStart then bulletMatch (c # cs) else None")
    case None
    then have out: "sanitizeFrom atStart (c # cs) = c # sanitizeFrom (isLineTerminator c) cs"
      by simp
    have ih: "sanitizeFrom (isLineTerminator c) (sanitizeFrom (isLineTerminator c) cs)
               = sanitizeFrom (isLineTerminator c) cs"
      using "2.IH"(1) [OF None] by simp
    have nm: "b2 \<Longrightarrow> bulletMatch (c # sanitizeFrom (isLineTerminator c) cs) = None"
    proof -
      assume b2
      then have atStart using "2.prems" by simp
      then have "bulletMatch (c # cs) = None" using None by simp
      then have "bulletMatch (sanitizeFrom atStart (c # cs)) = None" by (rule no_match_preserved)
      then show ?thesis using out by simp
    qed
    show ?thesis
    proof (cases b2)
      case True
      then show ?thesis using out nm ih by simp
    next
      case False
      then show ?thesis using out ih by simp
    qed
  next
    case (Some m)
    obtain w t where m: "m = (w, t)" by (cases m)
    have out: "sanitizeFrom atStart (c # cs) = ''- '' @ sanitizeFrom (isLineTerminator w) t"
      using Some m by simp
    have ih: "sanitizeFrom False (sanitizeFrom (isLineTerminator w) t)
               = sanitizeFrom (isLineTerminator w) t"
      using "2.IH"(2) [OF Some m [symmetric]] by simp
    have dash: "bulletMatch (CHR ''-'' # x) = None" for x
      by (simp add: bulletMatch_nonws isWhiteSpace_def split: list.splits)
    show ?thesis
      using out ih dash by (simp add: isLineTerminator_def)
  qed
qed

lemma bulletMatch_bullet:
  "\<forall>c\<in>set w. isWhiteSpace c \<Longrightarrow> bulletMatch (w @ ''* '' @ r) = Some (CHR '' '', r)"
proof -
  assume ws: "\<forall>c\<in>set w. isWhiteSpace c"
  have "dropWhile isWhiteSpace (w @ ''* '' @ r) = dropWhile isWhiteSpace (''* '' @ r)"
    by (rule dropWhile_append2) (use ws in simp)
  then show ?thesis by (simp add: bulletMatch_def isWhiteSpace_def)
qed

lemma sanitizeFrom_match:
  "bulletMatch s = Some (x, t) \<Longrightarrow>
   sanitizeFrom True s = ''- '' @ sanitizeFrom (isLineTerminator x) t"
  by (cases s) (auto simp: bulletMatch_def)

text \<open>
  At a line start that the scan reaches, the bullet prefix with its indentation becomes
  \<open>- \<close>; in particular on the first line of the text.
\<close>

lemma bullet_at_line_start:
  "\<forall>c\<in>set w. isWhiteSpace c \<Longrightarrow>
   sanitizeFrom True (w @ ''* '' @ r) = ''- '' @ sanitizeFrom False r"
  using sanitizeFrom_match [OF bulletMatch_bullet, of w r]
  by (simp add: isLineTerminator_def)

lemma last_dropWhile: "dropWhile P xs \<noteq> [] \<Longrightarrow> last (dropWhile P xs) = last xs"
proof -
  assume ne: "dropWhile P xs \<noteq> []"
  have "last (takeWhile P xs @ dropWhile P xs) = last (dropWhile P xs)"
    using ne by (rule last_appendR)
  then show ?thesis by simp
qed

lemma bullet_prefix_replaced:
  assumes ws: "\<forall>c\<in>set w. isWhiteSpace c"
  shows "(pre = [] \<longrightarrow> b) \<Longrightarrow> (pre \<noteq> [] \<longrightarrow> isLineTerminator (last pre)) \<Longrightarrow>
     \<exists>out. sanitizeFrom b (pre @ w @ ''* '' @ r) = out @ ''- '' @ sanitizeFrom False r
        \<and> ((out = [] \<and> b) \<or> (out \<noteq> [] \<and> isLineTerminator (last out)) \<or> (\<exists>p. out = p @ ''- ''))"
proof (induction "length pre" arbitrary: pre b rule: less_induct)
  case less
  let ?z = "w @ ''* '' @ r"
  show ?case
  proof (cases pre)
    case Nil
    then have b using less.prems by simp
    then show ?thesis using Nil bullet_at_line_start [OF ws, of r] by simp
  next
    case (Cons c cs)
    have lastpre: "isLineTerminator (last pre)" using less.prems Cons by simp
    show ?thesis
    proof (cases "if b then bulletMatch (pre @ ?z) else None")
      case None
      then have out: "sanitizeFrom b (pre @ ?z) = c # sanitizeFrom (isLineTerminator c) (cs @ ?z)"
        using Cons by (auto split: if_splits)
      have c1: "cs = [] \<longrightarrow> isLineTerminator c" using lastpre Cons by auto
      have c2: "cs \<noteq> [] \<longrightarrow> isLineTerminator (last cs)" using lastpre Cons by auto
      have "length cs < length pre" using Cons by simp
      from less.hyps [OF this c1 c2]
      obtain out' where o: "sanitizeFrom (isLineTerminator c) (cs @ ?z) = out' @ ''- '' @ sanitizeFrom False r"
        and d: "(out' = [] \<and> isLineTerminator c) \<or> (out' \<noteq> [] \<and> isLineTerminator (last out'))
                \<or> (\<exists>p. out' = p @ ''- '')"
        by blast
      have e: "sanitizeFrom b (pre @ ?z) = (c # out') @ ''- '' @ sanitizeFrom False r"
        using out o by simp
      have "(c # out' \<noteq> [] \<and> isLineTerminator (last (c # out'))) \<or> (\<exists>p. c # out' = p @ ''- '')"
      proof -
        consider "out' = [] \<and> isLineTerminator c" | "out' \<noteq> [] \<and> isLineTerminator (last out')"
          | "\<exists>p. out' = p @ ''- ''"
          using d by blast
        then show ?thesis
        proof cases
          case 1
          then show ?thesis by simp
        next
          case 2
          then show ?thesis by simp
        next
          case 3
          then obtain p' where "out' = p' @ ''- ''" by blast
          then have "c # out' = (c # p') @ ''- ''" by simp
          then show ?thesis by blast
        qed
      qed
      then show ?thesis using e by blast
    next
      case (Some m)
      obtain x t where m: "m = (x, t)" by (cases m)
      have b: b using Some by (cases b) auto
      have bm: "bulletMatch (pre @ ?z) = Some (x, t)" using Some m b by simp
      then have out: "sanitizeFrom b (pre @ ?z) = ''- '' @ sanitizeFrom (isLineTerminator x) t"
        using b sanitizeFrom_match by simp
      from bm have dw: "dropWhile isWhiteSpace (pre @ ?z) = CHR ''*'' # x # t"
        by (auto simp: bulletMatch_def split: list.splits if_splits)
      show ?thesis
      proof (cases "\<forall>c\<in>set pre. isWhiteSpace c")
        case True
        then have "\<forall>c\<in>set (pre @ w). isWhiteSpace c" using ws by auto
        then have "bulletMatch ((pre @ w) @ ''* '' @ r) = Some (CHR '' '', r)"
          by (rule bulletMatch_bullet)
        then have "x = CHR '' ''" "t = r" using bm by simp_all
        then have "sanitizeFrom b (pre @ ?z) = [] @ ''- '' @ sanitizeFrom False r"
          using out by (simp add: isLineTerminator_def)
        then show ?thesis using b by blast
      next
        case False
        then obtain y where y: "y \<in> set pre" "\<not> isWhiteSpace y" by blast
        then have dp: "dropWhile isWhiteSpace (pre @ ?z) = dropWhile isWhiteSpace pre @ ?z"
          by (rule dropWhile_append1)
        have ne: "dropWhile isWhiteSpace pre \<noteq> []"
          using y by (auto simp: dropWhile_eq_Nil_conv)
        then have ld: "last (dropWhile isWhiteSpace pre) = last pre" by (rule last_dropWhile)
        obtain a rest1 where r1: "dropWhile isWhiteSpace pre = a # rest1"
          using ne by (cases "dropWhile isWhiteSpace pre") auto
        have a: "a = CHR ''*''" and r1z: "rest1 @ ?z = x # t" using dw dp r1 by simp_all
        have "rest1 \<noteq> []"
        proof
          assume "rest1 = []"
          then have "last pre = CHR ''*''" using ld r1 a by simp
          then show False using lastpre star_not_lt by simp
        qed
        then obtain rest2 where r2: "rest1 = x # rest2" and t: "t = rest2 @ ?z"
          using r1z by (cases rest1) auto
        have len: "length rest2 < length pre"
        proof -
          have "length (dropWhile isWhiteSpace pre) \<le> length pre" by (rule length_dropWhile_le)
          then show ?thesis using r1 r2 by simp
        qed
        have lp: "last pre = last (x # rest2)" using ld r1 r2 by simp
        have c1: "rest2 = [] \<longrightarrow> isLineTerminator x" using lp lastpre by auto
        have c2: "rest2 \<noteq> [] \<longrightarrow> isLineTerminator (last rest2)" using lp lastpre by auto
        from less.hyps [OF len c1 c2]
        obtain out' where o: "sanitizeFrom (isLineTerminator x) (rest2 @ ?z) = out' @ ''- '' @ sanitizeFrom False r"
          and d: "(out' = [] \<and> isLineTerminator x) \<or> (out' \<noteq> [] \<and> isLineTerminator (last out'))
                  \<or> (\<exists>p. out' = p @ ''- '')"
          by blast
        have e: "sanitizeFrom b (pre @ ?z) = (''- '' @ out') @ ''- '' @ sanitizeFrom False r"
          using out o t by simp
        have "(''- '' @ out' \<noteq> [] \<and> isLineTerminator (last (''- '' @ out')))
              \<or> (\<exists>p. ''- '' @ out' = p @ ''- '')"
        proof -
          consider "out' = []" | "out' \<noteq> [] \<and> isLineTerminator (last out')" | "\<exists>p. out' = p @ ''- ''"
            using d by blast
          then show ?thesis
          proof cases
            case 1
            then have "''- '' @ out' = [] @ ''- ''" by simp
            then show ?thesis by blast
          next
            case 2
            then show ?thesis by simp
          next
            case 3
            then obtain o' where "out' = o' @ ''- ''" by blast
            then have "''- '' @ out' = (''- '' @ o') @ ''- ''" by simp
            then show ?thesis by blast
          qed
        qed
        then show ?thesis using e by blast
      qed
    qed
  qed
qed

text \<open>
  Bullet lines in general. Take a line that starts (at the start of the text or behind a
  line terminator) with white space \<open>w\<close> and then \<open>* \<close>. The pass replaces the whole prefix,
  white space included, by \<open>- \<close>, and goes on with the rest of the line. What the pass has
  written before that \<open>- \<close> is nothing, or ends with a line terminator, or ends with the
  \<open>- \<close> of a replacement just before: only in the last case is the new marker not at
  column 0.
\<close>

lemma bullet_line_prefix_replaced:
  assumes "pre = [] \<or> isLineTerminator (last pre)" and "\<forall>c\<in>set w. isWhiteSpace c"
  shows "\<exists>out. sanitizeBullets (pre @ w @ ''* '' @ r) = out @ ''- '' @ sanitizeFrom False r
        \<and> (out = [] \<or> isLineTerminator (last out) \<or> (\<exists>p. out = p @ ''- ''))"
proof -
  have "pre = [] \<longrightarrow> True" by simp
  moreover have "pre \<noteq> [] \<longrightarrow> isLineTerminator (last pre)" using assms(1) by blast
  ultimately obtain out where
    "sanitizeFrom True (pre @ w @ ''* '' @ r) = out @ ''- '' @ sanitizeFrom False r"
    "(out = [] \<and> True) \<or> (out \<noteq> [] \<and> isLineTerminator (last out)) \<or> (\<exists>p. out = p @ ''- '')"
    using bullet_prefix_replaced [OF assms(2), of pre True r] by blast
  then show ?thesis unfolding sanitizeBullets_def by blast
qed

text \<open>
  For example the indented bullet \<open>* Python\<close> on the line after \<open>Skills\<close>.
\<close>

lemma bullet_line_prefix_replaced_example:
  "\<exists>out. sanitizeBullets ((''Skills'' @ [CHR 0x0A]) @ ''  '' @ ''* '' @ ''Python'')
            = out @ ''- '' @ sanitizeFrom False ''Python''
        \<and> (out = [] \<or> isLineTerminator (last out) \<or> (\<exists>p. out = p @ ''- ''))"
proof -
  have a: "''Skills'' @ [CHR 0x0A] = [] \<or> isLineTerminator (last (''Skills'' @ [CHR 0x0A]))"
    by (simp add: isLineTerminator_def)
  have b: "\<forall>c\<in>set ''  ''. isWhiteSpace c" by (simp add: isWhiteSpace_def)
  show ?thesis using bullet_line_prefix_replaced [OF a b] .
qed

text \<open>
  Claim C10 on a text whose first line is a bare asterisk and whose second line is an
  indented bullet. The \<open>\s\<close> behind \<open>\*\<close> takes the line feed of the first line, so the
  replacement for the second line is written behind the first \<open>- \<close>: the result is the
  single line \<open>- - x\<close>; the rewritten bullet is at column 2 and no longer a line of its
  own.
\<close>

theorem bare_bullet_joins_next_line:
  "sanitizeBullets (''*'' @ CHR 0x0A # ''  * x'') = ''- - x''
   \<and> splitNl (sanitizeBullets (''*'' @ CHR 0x0A # ''  * x'')) = [''- - x'']"
  by code_simp

text \<open>
  Claim C3. The pass is idempotent on every text; it rewrites \<open>* Did X\<close> to \<open>- Did X\<close>;
  it leaves \<open>**Bold**\<close> as it is.
\<close>

theorem sanitize_idempotent:
  "sanitizeBullets (sanitizeBullets s) = sanitizeBullets s
   \<and> sanitizeBullets ''* Did X'' = ''- Did X''
   \<and> sanitizeBullets ''**Bold**'' = ''**Bold**''"
proof -
  have "sanitizeBullets (sanitizeBullets s) = sanitizeBullets s"
    unfolding sanitizeBullets_def by (rule sanitizeFrom_idem) simp
  moreover have "sanitizeBullets ''* Did X'' = ''- Did X''" by code_simp
  moreover have "sanitizeBullets ''**Bold**'' = ''**Bold**''" by code_simp
  ultimately show ?thesis by simp
qed

section \<open>Double-precision arithmetic: signs, exact values and evaluation\<close>

text \<open>
  Rounding keeps the sign and takes no number across zero that is at least as large as the
  least positive double; so the sign of a computed difference of two doubles is the sign of
  the exact difference.
\<close>

lemma roundEven_of_int [simp]: "roundEven (of_int n) = n"
  by (simp add: roundEven_def)

lemma roundEven_zero [simp]: "roundEven 0 = 0"
  using roundEven_of_int [of 0] by simp

lemma roundEven_ge_floor: "\<lfloor>y\<rfloor> \<le> roundEven y"
  by (simp add: roundEven_def Let_def)

lemma roundEven_le_floor1: "roundEven y \<le> \<lfloor>y\<rfloor> + 1"
  by (simp add: roundEven_def Let_def)

lemma roundEven_ge_one: "1 \<le> y \<Longrightarrow> 1 \<le> roundEven y"
proof -
  assume "1 \<le> y"
  then have "1 \<le> \<lfloor>y\<rfloor>" by linarith
  then show ?thesis using roundEven_ge_floor [of y] by linarith
qed

lemma roundEven_nonneg: "0 \<le> y \<Longrightarrow> 0 \<le> roundEven y"
proof -
  assume "0 \<le> y"
  then have "0 \<le> \<lfloor>y\<rfloor>" by linarith
  then show ?thesis using roundEven_ge_floor [of y] by linarith
qed

lemma roundEven_nonpos: "y \<le> 0 \<Longrightarrow> roundEven y \<le> 0"
proof (cases "y = 0")
  case True
  then show ?thesis by simp
next
  case False
  assume "y \<le> 0"
  then have "y < 0" using False by simp
  then have "\<lfloor>y\<rfloor> \<le> - 1" by linarith
  then show ?thesis using roundEven_le_floor1 [of y] by linarith
qed

lemma roundEven_le_minus_one: "y \<le> - 1 \<Longrightarrow> roundEven y \<le> - 1"
proof (cases "y = - 1")
  case True
  then show ?thesis using roundEven_of_int [of "- 1"] by simp
next
  case False
  assume "y \<le> - 1"
  then have "y < - 1" using False by simp
  then have "\<lfloor>y\<rfloor> \<le> - 2" by linarith
  then show ?thesis using roundEven_le_floor1 [of y] by linarith
qed

lemma ulp_pos: "0 < (2::real) powi k"
  by simp

lemma roundDouble_zero [simp]: "roundDouble 0 = 0"
  by (simp add: roundDouble_def)

lemma roundDouble_nonneg: "0 \<le> x \<Longrightarrow> 0 \<le> roundDouble x"
proof -
  assume "0 \<le> x"
  then have "0 \<le> x / 2 powi ulpExponent x" by simp
  then have "0 \<le> roundEven (x / 2 powi ulpExponent x)" by (rule roundEven_nonneg)
  then show ?thesis by (simp add: roundDouble_def)
qed

lemma roundDouble_nonpos: "x \<le> 0 \<Longrightarrow> roundDouble x \<le> 0"
proof -
  assume "x \<le> 0"
  then have "x / 2 powi ulpExponent x \<le> 0" by (simp add: divide_nonpos_pos)
  then have "roundEven (x / 2 powi ulpExponent x) \<le> 0" by (rule roundEven_nonpos)
  then show ?thesis by (simp add: roundDouble_def mult_le_0_iff)
qed

lemma two_powi_floor_log: "0 < z \<Longrightarrow> 2 powi \<lfloor>log 2 z\<rfloor> \<le> z"
proof -
  assume z: "0 < z"
  have "2 powr real_of_int \<lfloor>log 2 z\<rfloor> \<le> z"
    using floor_log_eq_powr_iff [of z 2 "\<lfloor>log 2 z\<rfloor>"] z by simp
  then show ?thesis by (simp add: powr_real_of_int')
qed

lemma ulp_le: "0 < z \<Longrightarrow> 2 powi (- 1074) \<le> z \<Longrightarrow> 2 powi ulpExponent z \<le> z"
proof -
  assume z: "0 < z" and g: "2 powi (- 1074) \<le> z"
  show ?thesis
  proof (cases "- 1022 \<le> \<lfloor>log 2 z\<rfloor>")
    case True
    then have "ulpExponent z = \<lfloor>log 2 z\<rfloor> - 52" using z by (simp add: ulpExponent_def)
    then have "(2::real) powi ulpExponent z \<le> 2 powi \<lfloor>log 2 z\<rfloor>"
      by (simp add: power_int_increasing)
    then show ?thesis using two_powi_floor_log [OF z] by linarith
  next
    case False
    then have "ulpExponent z = - 1074" using z by (simp add: ulpExponent_def)
    then show ?thesis using g by simp
  qed
qed

lemma ulpExponent_minus: "ulpExponent (- z) = ulpExponent z"
  by (simp add: ulpExponent_def)

lemma roundDouble_pos: "0 < z \<Longrightarrow> 2 powi (- 1074) \<le> z \<Longrightarrow> 0 < roundDouble z"
proof -
  assume z: "0 < z" and g: "2 powi (- 1074) \<le> z"
  have "2 powi ulpExponent z \<le> z" using z g by (rule ulp_le)
  then have "1 \<le> z / 2 powi ulpExponent z" by (simp add: le_divide_eq)
  then have "1 \<le> roundEven (z / 2 powi ulpExponent z)" by (rule roundEven_ge_one)
  then have "0 < real_of_int (roundEven (z / 2 powi ulpExponent z))" by linarith
  then show ?thesis by (simp add: roundDouble_def)
qed

lemma roundDouble_neg: "z < 0 \<Longrightarrow> z \<le> - (2 powi (- 1074)) \<Longrightarrow> roundDouble z < 0"
proof -
  assume z: "z < 0" and g: "z \<le> - (2 powi (- 1074))"
  have "2 powi ulpExponent (- z) \<le> - z" using z g by (intro ulp_le) simp_all
  then have "2 powi ulpExponent z \<le> - z" by (simp add: ulpExponent_minus)
  then have "z / 2 powi ulpExponent z \<le> - 1" by (simp add: divide_le_eq)
  then have "roundEven (z / 2 powi ulpExponent z) \<le> - 1" by (rule roundEven_le_minus_one)
  then have "real_of_int (roundEven (z / 2 powi ulpExponent z)) < 0" by linarith
  then show ?thesis by (simp add: roundDouble_def mult_less_0_iff)
qed

lemma ulpExponent_ge: "- 1074 \<le> ulpExponent x"
  by (simp add: ulpExponent_def)

lemma minSubnormal_pos: "0 < minSubnormal"
  unfolding minSubnormal_def by (rule ulp_pos)

lemma roundDouble_on_grid: "\<exists>m::int. roundDouble x = of_int m * minSubnormal"
proof -
  define k where "k = ulpExponent x"
  define j where "j = k + 1074"
  have j: "0 \<le> j" using ulpExponent_ge [of x] by (simp add: k_def j_def)
  have "(2::real) powi (j + (- 1074)) = 2 powi j * 2 powi (- 1074)"
    by (rule power_int_add) simp
  moreover have "j + (- 1074) = k" by (simp add: j_def)
  ultimately have split: "(2::real) powi k = 2 powi j * minSubnormal"
    by (simp only: minSubnormal_def)
  have nat: "(2::real) powi j = of_int (2 ^ nat j)"
    using j by (simp add: power_int_def)
  have "roundDouble x = of_int (roundEven (x / 2 powi k)) * (2 powi j * minSubnormal)"
    unfolding roundDouble_def k_def [symmetric] split ..
  also have "\<dots> = of_int (roundEven (x / 2 powi k) * 2 ^ nat j) * minSubnormal"
    unfolding nat by simp
  finally show ?thesis by blast
qed

lemma subD_sign:
  assumes a: "isDouble a" and b: "isDouble b"
  shows "(subD a b \<le> 0) = (a \<le> b)"
proof -
  obtain m where m: "a = of_int m * minSubnormal"
    using roundDouble_on_grid [of a] a by (auto simp: isDouble_def)
  obtain n where n: "b = of_int n * minSubnormal"
    using roundDouble_on_grid [of b] b by (auto simp: isDouble_def)
  have d: "a - b = of_int (m - n) * minSubnormal" using m n by (simp add: algebra_simps)
  show ?thesis
  proof (cases "a \<le> b")
    case True
    then have "roundDouble (a - b) \<le> 0" by (intro roundDouble_nonpos) simp
    then show ?thesis using True by (simp add: subD_def)
  next
    case False
    then have pos: "0 < a - b" by simp
    then have "0 < real_of_int (m - n) * minSubnormal" using d by simp
    then have "0 < real_of_int (m - n)"
      using minSubnormal_pos by (simp add: zero_less_mult_iff)
    then have "0 < m - n" by (simp only: of_int_0_less_iff)
    then have "1 \<le> m - n" by simp
    then have "1 \<le> real_of_int (m - n)" by (simp only: of_int_1_le_iff)
    then have "1 * minSubnormal \<le> real_of_int (m - n) * minSubnormal"
      using minSubnormal_pos by (intro mult_right_mono) simp_all
    then have "2 powi (- 1074) \<le> a - b" using d by (simp add: minSubnormal_def)
    then have "0 < roundDouble (a - b)" using pos by (intro roundDouble_pos)
    then show ?thesis using False by (simp add: subD_def)
  qed
qed

lemma roundDouble_eval:
  assumes lo: "2 powi e \<le> \<bar>x\<bar>" and hi: "\<bar>x\<bar> < 2 powi (e + 1)"
  shows "roundDouble x
       = of_int (roundEven (x / 2 powi (max e (- 1022) - 52))) * 2 powi (max e (- 1022) - 52)"
proof -
  have pos: "0 < \<bar>x\<bar>" using lo ulp_pos [of e] by linarith
  have a: "(2::real) powr real_of_int e = 2 powi e" by (rule powr_real_of_int') simp_all
  have b: "(2::real) powr real_of_int (e + 1) = 2 powi (e + 1)"
    by (rule powr_real_of_int') simp_all
  have "2 powr real_of_int e \<le> \<bar>x\<bar> \<and> \<bar>x\<bar> < 2 powr real_of_int (e + 1)"
    unfolding a b using lo hi by blast
  then have "\<lfloor>log 2 \<bar>x\<bar>\<rfloor> = e"
    using floor_log_eq_powr_iff [of "\<bar>x\<bar>" 2 e] pos by simp
  then show ?thesis by (simp add: roundDouble_def ulpExponent_def)
qed

lemma isDouble_int: "\<bar>n\<bar> < 2 ^ 53 \<Longrightarrow> isDouble (of_int n)"
proof (cases "n = 0")
  case True
  then show ?thesis by (simp add: isDouble_def)
next
  case False
  assume bound: "\<bar>n\<bar> < 2 ^ 53"
  define x :: real where "x = of_int n"
  define e where "e = \<lfloor>log 2 \<bar>x\<bar>\<rfloor>"
  have pos: "0 < \<bar>x\<bar>" using False by (simp add: x_def)
  have one: "1 \<le> \<bar>x\<bar>" using False by (simp add: x_def)
  have e0: "0 \<le> e"
  proof -
    have "0 \<le> log 2 \<bar>x\<bar>" using one by simp
    then show ?thesis by (simp add: e_def)
  qed
  have "2 powi e \<le> \<bar>x\<bar>" using two_powi_floor_log [OF pos] by (simp add: e_def)
  moreover have "\<bar>x\<bar> < 2 powi 53"
  proof -
    have "real_of_int \<bar>n\<bar> < real_of_int (2 ^ 53)" using bound by linarith
    then show ?thesis by (simp add: x_def)
  qed
  ultimately have "(2::real) powi e < 2 powi 53" by linarith
  then have "e < 53" by (rule power_int_le_imp_less_exp [rotated]) simp_all
  then have e52: "e \<le> 52" by simp
  have k: "ulpExponent x = e - 52" using e0 by (simp add: ulpExponent_def e_def)
  have "(2::real) powi (e - 52) * 2 powi (52 - e) = 1" by (simp flip: power_int_add)
  then have inv: "1 / (2::real) powi (e - 52) = 2 powi (52 - e)"
    by (simp add: field_simps)
  have "(2::real) powi (52 - e) = of_int (2 ^ nat (52 - e))"
    using e52 by (simp add: power_int_def)
  then have "x / 2 powi (e - 52) = of_int (n * 2 ^ nat (52 - e))"
    using inv by (simp add: x_def divide_inverse power_int_minus)
  then have "roundEven (x / 2 powi (e - 52)) = n * 2 ^ nat (52 - e)"
    using roundEven_of_int by metis
  then have "roundDouble x = of_int (n * 2 ^ nat (52 - e)) * 2 powi (e - 52)"
    by (simp add: roundDouble_def k)
  also have "\<dots> = x * (2 powi (52 - e) * 2 powi (e - 52))"
    using \<open>(2::real) powi (52 - e) = of_int (2 ^ nat (52 - e))\<close> by (simp add: x_def)
  also have "\<dots> = x" by (simp flip: power_int_add)
  finally have r: "roundDouble (of_int n) = of_int n" by (simp add: x_def)
  have "real_of_int \<bar>n\<bar> < real_of_int (2 ^ 53)" using bound by linarith
  then have "\<bar>real_of_int n\<bar> < 2 ^ 1024" by simp
  then show ?thesis using r by (simp add: isDouble_def)
qed

lemma roundDouble_numeral [simp]: "numeral w < (2::int) ^ 53 \<Longrightarrow> roundDouble (numeral w) = numeral w"
  using isDouble_int [of "numeral w"] by (simp add: isDouble_def)

lemma roundEven_minus: "roundEven (- y) = - roundEven y"
proof (cases "y = of_int \<lfloor>y\<rfloor>")
  case True
  then obtain n :: int where "y = of_int n" ..
  then have "- y = of_int (- n)" by simp
  then show ?thesis using \<open>y = of_int n\<close> by (metis roundEven_of_int)
next
  case False
  then have c: "\<lfloor>- y\<rfloor> = - \<lfloor>y\<rfloor> - 1"
    by (simp add: floor_minus ceiling_altdef)
  show ?thesis unfolding roundEven_def c Let_def by auto
qed

lemma roundDouble_minus [simp]: "roundDouble (- x) = - roundDouble x"
  by (simp add: roundDouble_def ulpExponent_minus roundEven_minus)

lemma roundDouble_one [simp]: "roundDouble 1 = 1"
  using isDouble_int [of 1] by (simp add: isDouble_def)

section \<open>Text extraction: the space rule and the order of a line\<close>

lemma literal_07: "roundDouble 0.7 = 6305039478318694 / 9007199254740992"
  using roundDouble_eval [of "- 1" "0.7"] by (simp add: power_int_minus roundEven_def)

lemma literal_025: "roundDouble (1 / 4) = 1 / 4"
  using roundDouble_eval [of "- 2" "1 / 4"] by (simp add: power_int_minus roundEven_def)

lemma mulD_nonneg: "0 \<le> a \<Longrightarrow> 0 \<le> b \<Longrightarrow> 0 \<le> mulD a b"
  by (simp add: mulD_def roundDouble_nonneg)

lemma tolerance_nonneg: "0 \<le> h \<Longrightarrow> 0 \<le> mulD h (roundDouble 0.7)"
  by (intro mulD_nonneg roundDouble_nonneg) simp_all

lemma set_insertItem: "set (insertItem cmp a bs) = insert a (set bs)"
  by (induction bs) auto

lemma set_jsSort: "set (jsSort cmp xs) = set xs"
  by (induction xs) (auto simp: jsSort_def set_insertItem)

lemma insertItem_by_x:
  "isDouble (transform4 a) \<Longrightarrow>
   \<forall>b\<in>set bs. isDouble (transform4 b) \<and> \<not> \<bar>subD (transform5 a) (transform5 b)\<bar> > 4 \<Longrightarrow>
   insertItem compareItems a bs = insort_key transform4 a bs"
  by (induction bs) (auto simp: compareItems_def subD_sign)

lemma jsSort_by_x:
  "\<forall>a\<in>set xs. isDouble (transform4 a) \<Longrightarrow>
   \<forall>a\<in>set xs. \<forall>b\<in>set xs. \<not> \<bar>subD (transform5 a) (transform5 b)\<bar> > 4 \<Longrightarrow>
   jsSort compareItems xs = sort_key transform4 xs"
proof (induction xs)
  case Nil
  show ?case by (simp add: jsSort_def)
next
  case (Cons a xs)
  have ih: "jsSort compareItems xs = sort_key transform4 xs" using Cons by simp
  have "\<forall>b\<in>set (jsSort compareItems xs).
          isDouble (transform4 b) \<and> \<not> \<bar>subD (transform5 a) (transform5 b)\<bar> > 4"
    using Cons.prems by (simp add: set_jsSort)
  moreover have "isDouble (transform4 a)" using Cons.prems by simp
  ultimately have "insertItem compareItems a (jsSort compareItems xs)
               = insort_key transform4 a (jsSort compareItems xs)"
    by (intro insertItem_by_x)
  then show ?case using ih by (simp add: jsSort_def)
qed

text \<open>On runs of one line with x coordinates that are doubles the comparator is consistent:
  its sign is the order of the x coordinates.\<close>

lemma compareItems_consistent:
  assumes a: "isDouble (transform4 a)" and b: "isDouble (transform4 b)"
    and y: "\<not> \<bar>subD (transform5 a) (transform5 b)\<bar> > 4"
  shows "(compareItems a b < 0) = (transform4 a < transform4 b)"
    and "(compareItems a b = 0) = (transform4 a = transform4 b)"
    and "(compareItems a b > 0) = (transform4 a > transform4 b)"
proof -
  have c: "compareItems a b = subD (transform4 a) (transform4 b)"
    using y by (simp add: compareItems_def)
  have "transform4 b - transform4 a = - (transform4 a - transform4 b)" by simp
  then have n: "subD (transform4 b) (transform4 a) = - subD (transform4 a) (transform4 b)"
    unfolding subD_def by (simp only: roundDouble_minus)
  have s1: "(subD (transform4 a) (transform4 b) \<le> 0) = (transform4 a \<le> transform4 b)"
    using a b by (rule subD_sign)
  have s2: "(subD (transform4 b) (transform4 a) \<le> 0) = (transform4 b \<le> transform4 a)"
    using b a by (rule subD_sign)
  show "(compareItems a b < 0) = (transform4 a < transform4 b)" using c n s1 s2 by auto
  show "(compareItems a b = 0) = (transform4 a = transform4 b)" using c n s1 s2 by auto
  show "(compareItems a b > 0) = (transform4 a > transform4 b)" using c n s1 s2 by auto
qed

lemma assembleLines_one_line:
  "\<forall>b\<in>set items. \<forall>y\<in>insert lastY (transform5 ` set items).
      \<not> \<bar>subD (transform5 b) y\<bar> > mulD (height b) (roundDouble 0.7) \<Longrightarrow>
   assembleLines lastY lastX_end currentLine items = [currentLine @ joinAfter lastX_end items]"
proof (induction items arbitrary: lastY lastX_end currentLine)
  case Nil
  show ?case by simp
next
  case (Cons b items)
  have same: "\<not> \<bar>subD (transform5 b) lastY\<bar> > mulD (height b) (roundDouble 0.7)"
    using Cons.prems by auto
  have nxt: "\<forall>c\<in>set items. \<forall>y\<in>insert (transform5 b) (transform5 ` set items).
               \<not> \<bar>subD (transform5 c) y\<bar> > mulD (height c) (roundDouble 0.7)"
    using Cons.prems by auto
  note ih = Cons.IH [OF nxt]
  show ?case using same ih by (simp add: needsSpace_def Let_def)
qed



lemma pageLines_one_line:
  assumes ne: "items \<noteq> []"
    and dbl: "\<forall>a\<in>set items. isDouble (transform4 a)"
    and base: "\<forall>a\<in>set items. \<forall>b\<in>set items.
        \<not> \<bar>subD (transform5 a) (transform5 b)\<bar> > 4
        \<and> \<not> \<bar>subD (transform5 a) (transform5 b)\<bar> > mulD (height a) (roundDouble 0.7)"
  shows "pageLines items = [joinRuns (sort_key transform4 items)]"
proof -
  have srt: "jsSort compareItems items = sort_key transform4 items"
    using dbl base by (intro jsSort_by_x) blast+
  have "sort_key transform4 items \<noteq> []" using ne by (metis length_sort length_0_conv)
  then obtain first rest where fr: "sort_key transform4 items = first # rest"
    by (cases "sort_key transform4 items") auto
  have sub: "set (first # rest) = set items" using fr by (metis set_sort)
  have "\<forall>b\<in>set rest. \<forall>y\<in>insert (transform5 first) (transform5 ` set rest).
          \<not> \<bar>subD (transform5 b) y\<bar> > mulD (height b) (roundDouble 0.7)"
  proof (intro ballI)
    fix b y assume b: "b \<in> set rest" and y: "y \<in> insert (transform5 first) (transform5 ` set rest)"
    then obtain a where a: "a \<in> set (first # rest)" "y = transform5 a" by auto
    have "b \<in> set items" "a \<in> set items" using b a sub by auto
    then show "\<not> \<bar>subD (transform5 b) y\<bar> > mulD (height b) (roundDouble 0.7)"
      using base a by blast
  qed
  then have "assembleLines (transform5 first) (addD (transform4 first) (width first)) (str first) rest
        = [str first @ joinAfter (addD (transform4 first) (width first)) rest]"
    by (rule assembleLines_one_line)
  then show ?thesis using srt fr by (simp add: pageLines_def joinRuns_def)
qed

lemma same_baseline:
  assumes "\<forall>a\<in>set items. transform5 a = y \<and> 0 \<le> height a"
  shows "\<forall>a\<in>set items. \<forall>b\<in>set items.
        \<not> \<bar>subD (transform5 a) (transform5 b)\<bar> > 4
        \<and> \<not> \<bar>subD (transform5 a) (transform5 b)\<bar> > mulD (height a) (roundDouble 0.7)"
proof (intro ballI)
  fix a b assume "a \<in> set items" "b \<in> set items"
  then have "subD (transform5 a) (transform5 b) = 0" and "0 \<le> height a"
    using assms by (simp_all add: subD_def)
  then show "\<not> \<bar>subD (transform5 a) (transform5 b)\<bar> > 4
        \<and> \<not> \<bar>subD (transform5 a) (transform5 b)\<bar> > mulD (height a) (roundDouble 0.7)"
    using tolerance_nonneg [of "height a"] by simp
qed

lemma same_baseline_one_line:
  assumes ne: "items \<noteq> []"
    and dbl: "\<forall>a\<in>set items. isDouble (transform4 a)"
    and same: "\<forall>a\<in>set items. transform5 a = y \<and> 0 \<le> height a"
  shows "pageLines items = [joinRuns (sort_key transform4 items)]"
  using ne dbl same_baseline [OF same] by (rule pageLines_one_line)


lemma double_25_2: "roundDouble (25 / 2) = 25 / 2"
  using roundDouble_eval [of 3 "25 / 2"] by (simp add: power_int_minus roundEven_def)






text \<open>
  The rounding of the tolerance decides: for the height 5.625 the product with the double
  of 0.7 rounds to a number below 3.9375, the exact value of 5.625 times 0.7, and two runs
  of this height on the baselines 0 and 3.9375 are two lines.
\<close>

lemma tolerance_5625: "mulD 5.625 (roundDouble 0.7) < 3.9375"
  using roundDouble_eval [of 1 "5.625 * (6305039478318694 / 9007199254740992)"]
  by (simp add: literal_07 mulD_def power_int_minus roundEven_def)

lemma double_39375: "roundDouble 3.9375 = 3.9375"
  using roundDouble_eval [of 1 "3.9375"] by (simp add: power_int_minus roundEven_def)

lemma rounded_tolerance_example:
  "pageLines [\<lparr>str = ''a'', transform4 = 0, transform5 = 0, width = 5, height = 5.625\<rparr>,
              \<lparr>str = ''b'', transform4 = 5, transform5 = 3.9375, width = 5, height = 5.625\<rparr>]
       = [''a'', ''b'']"
proof -
  have r: "roundDouble (63 / 16) = 63 / 16" using double_39375 by simp
  have t: "mulD (45 / 8) (roundDouble (7 / 10)) < 63 / 16" using tolerance_5625 by simp
  show ?thesis using t
    by (simp add: pageLines_def jsSort_def compareItems_def r subD_def addD_def)
qed

text \<open>
  Claim C4, as amended. For a run \<open>item\<close> that the loop finds on the line of the run before
  it, with \<open>lastX_end\<close> the end of that run and \<open>currentLine\<close> the text so far: the
  character width is the width divided by the length of the string, rounded to a double (the
  width for the empty string), and the loop puts a space before the string exactly when the
  computed gap, the double of the start of \<open>item\<close> minus \<open>lastX_end\<close>, exceeds the
  computed quarter of the character width. A gap equal to the computed quarter gives no
  space. For a positive character width whose quarter is a double (it is, short of
  underflow), a gap of at least 0.26 times the character width gives one.
\<close>

theorem space_insertion_threshold:
  assumes sameLine: "\<not> \<bar>subD (transform5 item) lastY\<bar> > mulD (height item) (roundDouble 0.7)"
  shows "charWidth item
           = (if length (str item) > 0 then divD (width item) (real (length (str item)))
              else width item)
     \<and> assembleLines lastY lastX_end currentLine [item]
         = [if subD (transform4 item) lastX_end > mulD (charWidth item) 0.25
            then currentLine @ '' '' @ str item else currentLine @ str item]
     \<and> (subD (transform4 item) lastX_end = mulD (charWidth item) 0.25
          \<longrightarrow> assembleLines lastY lastX_end currentLine [item] = [currentLine @ str item])
     \<and> (0 < charWidth item \<and> isDouble (charWidth item * 0.25)
          \<and> 0.26 * charWidth item \<le> subD (transform4 item) lastX_end
          \<longrightarrow> assembleLines lastY lastX_end currentLine [item]
                = [currentLine @ '' '' @ str item])"
proof -
  have g: "assembleLines lastY lastX_end currentLine [item]
         = [if subD (transform4 item) lastX_end > mulD (charWidth item) 0.25
            then currentLine @ '' '' @ str item else currentLine @ str item]"
    using sameLine by (simp add: Let_def literal_025)
  have e: "subD (transform4 item) lastX_end = mulD (charWidth item) 0.25
          \<longrightarrow> assembleLines lastY lastX_end currentLine [item] = [currentLine @ str item]"
    unfolding g by simp
  have s: "0 < charWidth item \<and> isDouble (charWidth item * 0.25)
          \<and> 0.26 * charWidth item \<le> subD (transform4 item) lastX_end
          \<longrightarrow> assembleLines lastY lastX_end currentLine [item]
                = [currentLine @ '' '' @ str item]"
    unfolding g by (simp add: mulD_def isDouble_def)
  show ?thesis using g e s by (simp only: charWidth_def simp_thms)
qed

text \<open>
  Witness for C4 as amended: \<open>World\<close>, 250 wide (character width 50, its quarter 12.5),
  behind \<open>Hello\<close> that ends at x 50: at x 62.5 the gap is the quarter and the strings are
  joined, at x 63 the gap is 13, which is 0.26 times 50, and a space is put.
\<close>

theorem space_insertion_threshold_witness:
  "assembleLines 100 50 ''Hello''
     [\<lparr>str = ''World'', transform4 = 62.5, transform5 = 100, width = 250, height = 10\<rparr>]
   = [''HelloWorld'']
   \<and> assembleLines 100 50 ''Hello''
     [\<lparr>str = ''World'', transform4 = 63, transform5 = 100, width = 250, height = 10\<rparr>]
   = [''Hello World'']"
proof -
  have t: "0 \<le> mulD 10 (roundDouble 0.7)" by (rule tolerance_nonneg) simp
  have a: "assembleLines 100 50 ''Hello''
     [\<lparr>str = ''World'', transform4 = 62.5, transform5 = 100, width = 250, height = 10\<rparr>]
   = [''HelloWorld'']"
    using space_insertion_threshold [of "\<lparr>str = ''World'', transform4 = 62.5, transform5 = 100,
        width = 250, height = 10\<rparr>" 100 50 "''Hello''"] t
    by (simp add: subD_def divD_def mulD_def isDouble_def double_25_2 charWidth_def)
  have b: "assembleLines 100 50 ''Hello''
     [\<lparr>str = ''World'', transform4 = 63, transform5 = 100, width = 250, height = 10\<rparr>]
   = [''Hello World'']"
    using space_insertion_threshold [of "\<lparr>str = ''World'', transform4 = 63, transform5 = 100,
        width = 250, height = 10\<rparr>" 100 50 "''Hello''"] t
    by (simp add: subD_def divD_def mulD_def isDouble_def double_25_2 charWidth_def)
  show ?thesis using a b by simp
qed

text \<open>
  Claim C4, as stated, fails for a run of width 0: its character width is 0, the gaps 0.25
  times and 0.26 times the character width are the same gap 0, and no space is put. After
  \<open>Hello\<close>, which ends at x 50, an empty run of width 0 at x 50 leaves the line as it is.
\<close>

theorem space_insertion_zero_width_counterexample:
  "charWidth \<lparr>str = [], transform4 = 50, transform5 = 100, width = 0, height = 0\<rparr> = 0
   \<and> subD (transform4 \<lparr>str = [], transform4 = 50, transform5 = 100, width = 0, height = 0\<rparr>) 50
       = 0.26 * charWidth \<lparr>str = [], transform4 = 50, transform5 = 100, width = 0, height = 0\<rparr>
   \<and> assembleLines 100 50 ''Hello''
        [\<lparr>str = [], transform4 = 50, transform5 = 100, width = 0, height = 0\<rparr>] = [''Hello'']
   \<and> assembleLines 100 50 ''Hello''
        [\<lparr>str = [], transform4 = 50, transform5 = 100, width = 0, height = 0\<rparr>] \<noteq> [''Hello '']"
  by (simp add: charWidth_def subD_def mulD_def addD_def)

text \<open>
  The gap and the quarter are the computed numbers, not the exact ones. After a run that
  ends at x 1, the run \<open>bcdef\<close> of width 11 at the double of 1.55: the exact gap exceeds a
  quarter of the exact character width 2.2, but the computed gap and the computed quarter
  are the same double, and no space is put.
\<close>

lemma double_155: "roundDouble 1.55 = 6980579422424269 / 4503599627370496"
  using roundDouble_eval [of 0 "1.55"] by (simp add: power_int_minus roundEven_def)

lemma double_11_5: "divD 11 5 = 4953959590107546 / 2251799813685248"
  using roundDouble_eval [of 1 "11 / 5"] by (simp add: power_int_minus roundEven_def divD_def)

lemma computed_gap_055:
  "subD (6980579422424269 / 4503599627370496) 1 = 2476979795053773 / 4503599627370496"
  using roundDouble_eval [of "- 1" "2476979795053773 / 4503599627370496"]
  by (simp add: power_int_minus roundEven_def subD_def)

lemma computed_quarter_055:
  "mulD (4953959590107546 / 2251799813685248) (1 / 4) = 2476979795053773 / 4503599627370496"
  using roundDouble_eval [of "- 1" "2476979795053773 / 4503599627370496"]
  by (simp add: power_int_minus roundEven_def mulD_def)

lemma rounded_gap_example:
  "roundDouble 1.55 - 1 > 0.25 * (11 / 5)
   \<and> assembleLines 0 1 ''a''
       [\<lparr>str = ''bcdef'', transform4 = roundDouble 1.55, transform5 = 0, width = 11, height = 10\<rparr>]
     = [''abcdef'']"
proof -
  have t: "0 \<le> mulD 10 (roundDouble 0.7)" by (rule tolerance_nonneg) simp
  have z: "subD 0 0 = 0" by (simp add: subD_def)
  have "subD (roundDouble 1.55) 1 = mulD (divD 11 5) (1 / 4)"
    unfolding double_155 double_11_5 computed_gap_055 computed_quarter_055 by (rule refl)
  then have eq: "subD (roundDouble (31 / 20)) 1 = mulD (divD 11 5) (1 / 4)" by simp
  have x: "roundDouble 1.55 - 1 > 0.25 * (11 / 5)" unfolding double_155 by simp
  have l: "assembleLines 0 1 ''a''
       [\<lparr>str = ''bcdef'', transform4 = roundDouble 1.55, transform5 = 0, width = 11, height = 10\<rparr>]
     = [''abcdef'']"
    using t by (simp add: z eq charWidth_def literal_025 Let_def)
  show ?thesis using x l by (rule conjI)
qed

section \<open>PDF generation: sections, failures and determinism\<close>

lemma forEachE_cong_on:
  "\<forall>a\<in>set as. f a = g a \<Longrightarrow> forEachE f as = forEachE g as"
proof (induction as)
  case Nil
  show ?case by (simp add: fun_eq_iff)
next
  case (Cons a as)
  then have e: "forEachE f as = forEachE g as" and fa: "f a = g a" by simp_all
  show ?case
  proof (rule ext)
    fix s
    show "forEachE f (a # as) s = forEachE g (a # as) s" by (simp add: e fa)
  qed
qed

lemma renderHeader_cong:
  "header data' = header data \<Longrightarrow>
   renderHeader family centered x gap data' r = renderHeader family centered x gap data r"
  by (simp add: renderHeader_def)

lemma classicSection_cong:
  "sectionText data' k = sectionText data k \<Longrightarrow> classicSection lib data' k = classicSection lib data k"
  by (simp add: classicSection_def fun_eq_iff)

lemma professionalSection_cong:
  "sectionText data' k = sectionText data k \<Longrightarrow>
   professionalSection lib data' k = professionalSection lib data k"
  by (simp add: professionalSection_def fun_eq_iff)

lemma technicalSection_cong:
  "sectionText data' k = sectionText data k \<Longrightarrow>
   technicalSection lib data' k = technicalSection lib data k"
  by (simp add: technicalSection_def fun_eq_iff)

lemma modernSection_cong:
  "sectionText data' k = sectionText data k \<Longrightarrow> modernSection lib data' k = modernSection lib data k"
  by (simp add: modernSection_def fun_eq_iff)

lemma template_reads_listed_sections:
  assumes hd: "header data' = header data"
    and secs: "\<forall>k\<in>set (sectionOrderOf templateId). sectionText data' k = sectionText data k"
  shows "renderTemplate lib templateId d data' = renderTemplate lib templateId d data"
proof (cases templateId)
  case Classic
  then have "\<forall>k\<in>set classicSectionOrder. sectionText data' k = sectionText data k"
    using secs by (simp add: sectionOrderOf_def)
  then have "\<forall>k\<in>set classicSectionOrder. classicSection lib data' k = classicSection lib data k"
    using classicSection_cong by blast
  then have "forEachE (classicSection lib data') classicSectionOrder
      = forEachE (classicSection lib data) classicSectionOrder"
    by (rule forEachE_cong_on)
  then show ?thesis using Classic
    by (simp add: renderTemplate_def renderClassicTemplate_def renderHeader_cong [OF hd])
next
  case Modern
  then have "\<forall>k\<in>set modernSectionOrder. sectionText data' k = sectionText data k"
    using secs by (simp add: sectionOrderOf_def)
  then have "\<forall>k\<in>set modernSectionOrder. modernSection lib data' k = modernSection lib data k"
    using modernSection_cong by blast
  then have "forEachE (modernSection lib data') modernSectionOrder
      = forEachE (modernSection lib data) modernSectionOrder"
    by (rule forEachE_cong_on)
  then show ?thesis using Modern
    by (simp add: renderTemplate_def renderModernTemplate_def renderHeader_cong [OF hd])
next
  case Professional
  then have "\<forall>k\<in>set professionalSectionOrder. sectionText data' k = sectionText data k"
    using secs by (simp add: sectionOrderOf_def)
  then have "\<forall>k\<in>set professionalSectionOrder. professionalSection lib data' k = professionalSection lib data k"
    using professionalSection_cong by blast
  then have "forEachE (professionalSection lib data') professionalSectionOrder
      = forEachE (professionalSection lib data) professionalSectionOrder"
    by (rule forEachE_cong_on)
  then show ?thesis using Professional
    by (simp add: renderTemplate_def renderProfessionalTemplate_def renderHeader_cong [OF hd])
next
  case Technical
  then have "\<forall>k\<in>set technicalSectionOrder. sectionText data' k = sectionText data k"
    using secs by (simp add: sectionOrderOf_def)
  then have "\<forall>k\<in>set technicalSectionOrder. technicalSection lib data' k = technicalSection lib data k"
    using technicalSection_cong by blast
  then have "forEachE (technicalSection lib data') technicalSectionOrder
      = forEachE (technicalSection lib data) technicalSectionOrder"
    by (rule forEachE_cong_on)
  then show ?thesis using Technical
    by (simp add: renderTemplate_def renderTechnicalTemplate_def renderHeader_cong [OF hd])
qed

text \<open>
  Claim C7. A section whose key is not in the \<open>sectionOrder\<close> of the template leaves no
  trace in the rendering: with the section (any body) or without it, each of the four
  templates makes the same calls on the document, so no draw command comes from that
  section's title or body.
\<close>

theorem unlisted_section_not_rendered:
  assumes "key \<notin> set (sectionOrderOf templateId)"
  shows "renderTemplate lib templateId d (data\<lparr>sections := (sections data)(key \<mapsto> body)\<rparr>)
           = renderTemplate lib templateId d data"
proof (rule template_reads_listed_sections)
  show "header (data\<lparr>sections := (sections data)(key \<mapsto> body)\<rparr>) = header data" by simp
  show "\<forall>k\<in>set (sectionOrderOf templateId).
      sectionText (data\<lparr>sections := (sections data)(key \<mapsto> body)\<rparr>) k = sectionText data k"
    using assms by (auto simp: sectionText_def)
qed

text \<open>
  Claim C8. When anything inside the \<open>try\<close> of \<open>generatePdfResume\<close> throws (the
  sanitization, the parse, a template, the lexer, the layout), the only effects are the
  \<open>console.error\<close> and the alert: nothing is saved, the document drawn so far is dropped.
\<close>

theorem generation_failure_caught:
  assumes "renderResume lib resumeText templateId = Inl error"
  shows "generatePdfResume lib resumeText templateId filename h
           = h\<lparr>consoleErrors := consoleErrors h @ [error],
               alerts := alerts h
                 @ [''Sorry, there was an error generating the PDF. Please try again.'']\<rparr>
    \<and> savedFiles (generatePdfResume lib resumeText templateId filename h) = savedFiles h"
  using assms by (simp add: generatePdfResume_def)













text \<open>
  A header without its second line makes every template throw, at
  \<open>doc.text(data.header[1], ...)\<close>.
\<close>

lemma header_missing_fails:
  "jsIndex (header data) 1 = None \<Longrightarrow> renderTemplate lib templateId d data = Inl InvalidArguments"
  by (cases templateId)
     (auto simp: renderTemplate_def renderClassicTemplate_def renderProfessionalTemplate_def
        renderTechnicalTemplate_def renderModernTemplate_def renderHeader_def rendererText_def
        thenE_def docText_def docTextCentered_def Let_def jsIndex_def split: sum.splits option.splits if_splits)

text \<open>
  So for a resume text that is one line after sanitization, the generation fails whatever
  the template and the libraries.
\<close>

lemma single_line_fails:
  assumes "CHR 0x0A \<notin> set (sanitizeBullets resumeText)"
  shows "renderResume lib resumeText templateId = Inl InvalidArguments"
proof -
  have "jsIndex (header (parseResumeStructure (sanitizeBullets resumeText))) 1 = None"
    using assms parse_header_lines(2) [of "sanitizeBullets resumeText"] by simp
  then have "renderTemplate lib templateId (setFont ''helvetica'' ''normal'' newDoc)
               (parseResumeStructure (sanitizeBullets resumeText)) = Inl InvalidArguments"
    by (rule header_missing_fails)
  then show ?thesis by (simp add: renderResume_def thenE_def)
qed

text \<open>
  Witness for C8: the one-line text \<open>Jane Doe\<close> has no contact line; the template
  throws, the alert is shown and no file is saved.
\<close>

theorem generation_failure_caught_witness:
  "generatePdfResume sampleLibraries ''Jane Doe'' Classic ''Jane-Doe-Resume.pdf'' emptyHost
     = \<lparr>savedFiles = [], consoleErrors = [InvalidArguments],
        alerts = [''Sorry, there was an error generating the PDF. Please try again.'']\<rparr>"
proof -
  have "CHR 0x0A \<notin> set (sanitizeBullets ''Jane Doe'')" by code_simp
  then have "renderResume sampleLibraries ''Jane Doe'' Classic = Inl InvalidArguments"
    by (rule single_line_fails)
  from generation_failure_caught [OF this, of "''Jane-Doe-Resume.pdf''" emptyHost]
  show ?thesis by (simp add: emptyHost_def)
qed

text \<open>
  Witness for C7: a \<open>references\<close> section, rendered with the technical template.
\<close>

theorem unlisted_section_not_rendered_witness:
  "renderTemplate sampleLibraries Technical newDoc
     \<lparr>header = [''Jane Doe'', ''jane@example.com''],
      sections = [''summary'' \<mapsto> ''Senior engineer'', ''references'' \<mapsto> ''On request'']\<rparr>
   = renderTemplate sampleLibraries Technical newDoc
     \<lparr>header = [''Jane Doe'', ''jane@example.com''],
      sections = [''summary'' \<mapsto> ''Senior engineer'']\<rparr>"
proof -
  have "''references'' \<notin> set (sectionOrderOf Technical)"
    by (simp add: sectionOrderOf_def technicalSectionOrder_def)
  from unlisted_section_not_rendered [OF this, of sampleLibraries newDoc
      "\<lparr>header = [''Jane Doe'', ''jane@example.com''],
        sections = [''summary'' \<mapsto> ''Senior engineer'']\<rparr>" "''On request''"]
  show ?thesis by simp
qed

text \<open>
  From the text to the document: the resume with a section \<open>## References\<close> at its end is
  rendered as the resume without it, by every template.
\<close>

lemma references_dropped_example:
  "renderResume lib
     (''Jane Doe'' @ CHR 0x0A # ''jane@example.com'' @ CHR 0x0A # ''## Summary'' @ CHR 0x0A #
      ''Senior engineer'' @ CHR 0x0A # ''## References'' @ CHR 0x0A # ''On request'') templateId
   = renderResume lib
     (''Jane Doe'' @ CHR 0x0A # ''jane@example.com'' @ CHR 0x0A # ''## Summary'' @ CHR 0x0A #
      ''Senior engineer'') templateId"
proof -
  let ?with = "''Jane Doe'' @ CHR 0x0A # ''jane@example.com'' @ CHR 0x0A # ''## Summary'' @ CHR 0x0A #
      ''Senior engineer'' @ CHR 0x0A # ''## References'' @ CHR 0x0A # ''On request''"
  let ?without = "''Jane Doe'' @ CHR 0x0A # ''jane@example.com'' @ CHR 0x0A # ''## Summary'' @ CHR 0x0A #
      ''Senior engineer''"
  have hd: "header (parseResumeStructure (sanitizeBullets ?with))
      = header (parseResumeStructure (sanitizeBullets ?without))"
    by code_simp
  have "\<forall>k\<in>set [''summary'', ''skills'', ''experience'', ''projects'', ''education''].
      sectionText (parseResumeStructure (sanitizeBullets ?with)) k
        = sectionText (parseResumeStructure (sanitizeBullets ?without)) k"
    by code_simp
  then have secs: "\<forall>k\<in>set (sectionOrderOf templateId).
      sectionText (parseResumeStructure (sanitizeBullets ?with)) k
        = sectionText (parseResumeStructure (sanitizeBullets ?without)) k"
    by (cases templateId)
       (simp_all add: sectionOrderOf_def classicSectionOrder_def professionalSectionOrder_def
          technicalSectionOrder_def modernSectionOrder_def)
  have "renderTemplate lib templateId (setFont ''helvetica'' ''normal'' newDoc)
          (parseResumeStructure (sanitizeBullets ?with))
      = renderTemplate lib templateId (setFont ''helvetica'' ''normal'' newDoc)
          (parseResumeStructure (sanitizeBullets ?without))"
    using hd secs by (rule template_reads_listed_sections)
  then show ?thesis unfolding renderResume_def Let_def by simp
qed

end
